theory Spec2Isabelle
  imports Main "HOL-Library.Char_ord" "HOL-Library.List_Lexorder" "HOL-Library.Sublist"
begin

section \<open>Strings, errors and manifests\<close>

text \<open>
  A Python \<open>str\<close> is modelled as a \<open>string\<close>: the list of the bytes of its UTF-8 encoding.
  On such lists the lexicographic order of \<open>HOL-Library.List_Lexorder\<close> over the byte order of
  \<open>HOL-Library.Char_ord\<close> is Python's order on \<open>str\<close> (code point by code point), which is the
  order \<open>sorted\<close> uses.

  Exceptions are values: a function that can raise returns \<open>error + 'a\<close>.
\<close>

datatype error =
    StopIteration
  | AssertionError
  | KeyError string
  | ReError

text \<open>
  The manifest that \<open>skopeo inspect\<close> prints, with the fields the script reads.
  \<open>rechunk_packages\<close> is the value of
  \<open>json.loads(manifest["Labels"]["dev.hhd.rechunk.info"])["packages"]\<close>: a dictionary from package
  names to version strings in insertion order, or \<open>None\<close> when that expression raises.
  \<open>revision\<close> is \<open>manifest["Labels"]["org.opencontainers.image.revision"]\<close>, \<open>None\<close> when absent.
\<close>

record manifest =
  RepoTags :: "string list"
  rechunk_packages :: "(string \<times> string) list option"
  revision :: "string option"
  Created :: "string option"

text \<open>A \<open>dict[str, manifest]\<close> in insertion order.\<close>

type_synonym manifests = "(string \<times> manifest) list"

section \<open>Tag selector\<close>

text \<open>The class \<^verbatim>\<open>\d\<close> on the ASCII characters. Tags of a registry and version strings of
  packages hold ASCII characters only.\<close>

definition is_digit :: "char \<Rightarrow> bool" where
  "is_digit c = (CHR ''0'' \<le> c \<and> c \<le> CHR ''9'')"

definition endswith :: "string \<Rightarrow> string \<Rightarrow> bool" where
  "endswith s suf = (length suf \<le> length s \<and> drop (length s - length suf) s = suf)"

text \<open>\<open>re.match(STABLE_START_PATTERN, tag)\<close> with the pattern \<^verbatim>\<open>\d\d\.\d\<close>, anchored at the start.\<close>

fun STABLE_START_PATTERN :: "string \<Rightarrow> bool" where
  "STABLE_START_PATTERN (a # b # c # d # rest) =
     (is_digit a \<and> is_digit b \<and> c = CHR ''.'' \<and> is_digit d)"
| "STABLE_START_PATTERN _ = False"

text \<open>
  \<open>OTHER_START_PATTERN(target)\<close> compiles the text of \<open>target\<close> followed by \<^verbatim>\<open>-\d\d\.\d\<close> as a
  regular expression, so the channel name is read as a pattern. The regular expression library
  is a parameter \<open>re_compile\<close>: it gives the predicate \<open>re.match(pattern, _) is not None\<close>, or
  \<open>None\<close> when \<open>re.compile\<close> raises.
\<close>

type_synonym re_compile = "string \<Rightarrow> (string \<Rightarrow> bool) option"

definition OTHER_START_PATTERN :: "re_compile \<Rightarrow> string \<Rightarrow> (string \<Rightarrow> bool) option" where
  "OTHER_START_PATTERN re target =
     re (target @
         [CHR ''-'', CHR 0x5C, CHR ''d'', CHR 0x5C, CHR ''d'', CHR 0x5C, CHR ''.'', CHR 0x5C, CHR ''d''])"

text \<open>
  The first loop of \<open>get_tags\<close>, over the tags of the first manifest. The Python set \<open>tags\<close> is
  held as a list of its elements; \<open>sorted\<close> later removes the order and the duplicates.
\<close>

fun collect_tags ::
  "re_compile \<Rightarrow> string \<Rightarrow> string list \<Rightarrow> string list \<Rightarrow> error + string list" where
  "collect_tags re target [] tags = Inr tags"
| "collect_tags re target (tag # rest) tags =
     (if endswith tag ''.0'' then collect_tags re target rest tags
      else if target \<noteq> ''stable'' then
        (case OTHER_START_PATTERN re target of
           None \<Rightarrow> Inl ReError
         | Some m \<Rightarrow>
             if m tag then collect_tags re target rest (tags @ [tag])
             else collect_tags re target rest tags)
      else
        if STABLE_START_PATTERN tag then collect_tags re target rest (tags @ [tag])
        else collect_tags re target rest tags)"

text \<open>The second loop: tags absent from the tag list of some manifest are removed.\<close>

fun remove_absent :: "manifest list \<Rightarrow> string list \<Rightarrow> string list" where
  "remove_absent [] tags = tags"
| "remove_absent (m # ms) tags = remove_absent ms (filter (\<lambda>tag. tag \<in> set (RepoTags m)) tags)"

definition get_tags :: "re_compile \<Rightarrow> string \<Rightarrow> manifests \<Rightarrow> error + (string \<times> string)" where
  "get_tags re target ms =
     (case map snd ms of
        [] \<Rightarrow> Inl StopIteration
      | first # _ \<Rightarrow>
          (case collect_tags re target (RepoTags first) [] of
             Inl e \<Rightarrow> Inl e
           | Inr tags0 \<Rightarrow>
               let tags = sort (remdups (remove_absent (map snd ms) tags0)) in
               if length tags \<ge> 2
               then Inr (tags ! (length tags - 2), tags ! (length tags - 1))
               else Inl AssertionError))"

text \<open>
  The tags that qualify, in the specification's words: a tag of some manifest that matches the
  channel's pattern, does not end in \<open>.0\<close> and is in the tag list of every manifest.
\<close>

definition matches_channel :: "re_compile \<Rightarrow> string \<Rightarrow> string \<Rightarrow> bool" where
  "matches_channel re target tag =
     (if target = ''stable'' then STABLE_START_PATTERN tag
      else case OTHER_START_PATTERN re target of None \<Rightarrow> False | Some m \<Rightarrow> m tag)"

definition qualifying_tags :: "re_compile \<Rightarrow> string \<Rightarrow> manifests \<Rightarrow> string set" where
  "qualifying_tags re target ms =
     {tag \<in> \<Union> (set (map (\<lambda>(img, m). set (RepoTags m)) ms)).
        matches_channel re target tag \<and> \<not> endswith tag ''.0'' \<and>
        (\<forall>(img, m) \<in> set ms. tag \<in> set (RepoTags m))}"


text \<open>Concrete inputs for the tag selector: a library in which no pattern compiles, and the
  manifest of the scenario with the tags \<open>23.9\<close>, \<open>23.10\<close> and \<open>23.10.0\<close>.\<close>

definition no_re :: re_compile where
  "no_re pat = None"

text \<open>A library for the patterns of channel names without special characters: the pattern is
  matched at the start of the text character by character, \<^verbatim>\<open>\d\<close> being a digit and a
  backslash before any other character that character itself.\<close>

fun simple_match :: "string \<Rightarrow> string \<Rightarrow> bool" where
  "simple_match [] s = True"
| "simple_match (p # ps) [] = False"
| "simple_match [p] (c # s) = (p = c)"
| "simple_match (p # q # ps) (c # s) =
     (if p = CHR 0x5C then (if q = CHR ''d'' then is_digit c else c = q) \<and> simple_match ps s
      else p = c \<and> simple_match (q # ps) s)"

definition literal_re :: re_compile where
  "literal_re pat = Some (simple_match pat)"

definition testing_manifests :: manifests where
  "testing_manifests =
     [(''serpentine'',
       \<lparr>RepoTags = [''testing-43.1'', ''testing-43.2'', ''testing-43.2.0'', ''43.3'', ''testing''],
        rechunk_packages = None, revision = None, Created = None\<rparr>),
      (''serpentine-nvidia'',
       \<lparr>RepoTags = [''testing-43.2'', ''testing-43.1'', ''testing-43.3''],
        rechunk_packages = None, revision = None, Created = None\<rparr>)]"

definition scenario_manifest :: manifest where
  "scenario_manifest =
     \<lparr>RepoTags = [''23.9'', ''23.10'', ''23.10.0''], rechunk_packages = None,
      revision = None, Created = None\<rparr>"

definition scenario_manifests :: manifests where
  "scenario_manifests =
     [(''serpentine'', scenario_manifest), (''serpentine-nvidia'', scenario_manifest)]"

section \<open>Diff engine\<close>

definition BLACKLIST_VERSIONS :: "string list" where
  "BLACKLIST_VERSIONS =
     [''kernel'', ''mesa-filesystem'', ''gamescope'', ''plasma-desktop'', ''atheros-firmware'']"

text \<open>
  The row templates. \<open>str.format\<close> with the named fields puts the arguments in place of the
  fields and does not read the arguments again. The three marks are the UTF-8 bytes of
  U+2728, U+1F504 and U+274C.
\<close>

definition MARK_ADD :: string where
  "MARK_ADD = [CHR 0xE2, CHR 0x9C, CHR 0xA8]"

definition MARK_CHANGE :: string where
  "MARK_CHANGE = [CHR 0xF0, CHR 0x9F, CHR 0x94, CHR 0x84]"

definition MARK_REMOVE :: string where
  "MARK_REMOVE = [CHR 0xE2, CHR 0x9D, CHR 0x8C]"

definition PATTERN_ADD :: "string \<Rightarrow> string \<Rightarrow> string" where
  "PATTERN_ADD name version =
     [CHR 0x0A] @ ''| '' @ MARK_ADD @ '' | '' @ name @ '' | | '' @ version @ '' |''"

definition PATTERN_CHANGE :: "string \<Rightarrow> string \<Rightarrow> string \<Rightarrow> string" where
  "PATTERN_CHANGE name prev new =
     [CHR 0x0A] @ ''| '' @ MARK_CHANGE @ '' | '' @ name @ '' | '' @ prev @ '' | '' @ new @ '' |''"

definition PATTERN_REMOVE :: "string \<Rightarrow> string \<Rightarrow> string" where
  "PATTERN_REMOVE name version =
     [CHR 0x0A] @ ''| '' @ MARK_REMOVE @ '' | '' @ name @ '' | '' @ version @ '' | |''"

text \<open>A \<open>dict[str, str]\<close> that is only read: \<open>pkg in d\<close> is \<open>d pkg \<noteq> None\<close>, and \<open>d.get(pkg, None)\<close>
  is \<open>d pkg\<close>.\<close>

type_synonym versions = "string \<rightharpoonup> string"

text \<open>The state of the first loop of \<open>calculate_changes\<close>. \<open>blacklist_ver\<close> holds the results of
  \<open>dict.get\<close>, so it may hold \<open>None\<close>.\<close>

record diff_state =
  added :: "string list"
  changed :: "string list"
  removed :: "string list"
  blacklist_ver :: "string option set"

definition diff_init :: "versions \<Rightarrow> diff_state" where
  "diff_init cur =
     \<lparr>added = [], changed = [], removed = [], blacklist_ver = set (map cur BLACKLIST_VERSIONS)\<rparr>"

text \<open>The three tests that end an iteration with \<open>continue\<close>.\<close>

definition skipped :: "versions \<Rightarrow> versions \<Rightarrow> diff_state \<Rightarrow> string \<Rightarrow> bool" where
  "skipped prev cur st pkg =
     (pkg \<in> set BLACKLIST_VERSIONS \<or>
      (cur pkg \<noteq> None \<and> cur pkg \<in> blacklist_ver st) \<or>
      (prev pkg \<noteq> None \<and> prev pkg \<in> blacklist_ver st))"

text \<open>One iteration of the loop over \<open>pkgs\<close>.\<close>

definition diff_step :: "versions \<Rightarrow> versions \<Rightarrow> string \<Rightarrow> diff_state \<Rightarrow> diff_state" where
  "diff_step prev cur pkg st =
     (if pkg \<in> set BLACKLIST_VERSIONS then st
      else if cur pkg \<noteq> None \<and> cur pkg \<in> blacklist_ver st then st
      else if prev pkg \<noteq> None \<and> prev pkg \<in> blacklist_ver st then st
      else
        let st' =
          (if prev pkg = None then st\<lparr>added := added st @ [pkg]\<rparr>
           else if cur pkg = None then st\<lparr>removed := removed st @ [pkg]\<rparr>
           else if prev pkg \<noteq> cur pkg then st\<lparr>changed := changed st @ [pkg]\<rparr>
           else st)
        in st'\<lparr>blacklist_ver := insert (prev pkg) (insert (cur pkg) (blacklist_ver st'))\<rparr>)"

definition diff_loop :: "string list \<Rightarrow> versions \<Rightarrow> versions \<Rightarrow> diff_state" where
  "diff_loop pkgs prev cur = fold (diff_step prev cur) pkgs (diff_init cur)"

text \<open>The three loops that build the text; \<open>d[pkg]\<close> raises \<open>KeyError\<close> on a missing key.\<close>

fun format_added :: "versions \<Rightarrow> string list \<Rightarrow> string \<Rightarrow> error + string" where
  "format_added cur [] out = Inr out"
| "format_added cur (pkg # rest) out =
     (case cur pkg of
        None \<Rightarrow> Inl (KeyError pkg)
      | Some v \<Rightarrow> format_added cur rest (out @ PATTERN_ADD pkg v))"

fun format_changed :: "versions \<Rightarrow> versions \<Rightarrow> string list \<Rightarrow> string \<Rightarrow> error + string" where
  "format_changed prev cur [] out = Inr out"
| "format_changed prev cur (pkg # rest) out =
     (case prev pkg of
        None \<Rightarrow> Inl (KeyError pkg)
      | Some u \<Rightarrow>
          (case cur pkg of
             None \<Rightarrow> Inl (KeyError pkg)
           | Some v \<Rightarrow> format_changed prev cur rest (out @ PATTERN_CHANGE pkg u v)))"

fun format_removed :: "versions \<Rightarrow> string list \<Rightarrow> string \<Rightarrow> error + string" where
  "format_removed prev [] out = Inr out"
| "format_removed prev (pkg # rest) out =
     (case prev pkg of
        None \<Rightarrow> Inl (KeyError pkg)
      | Some u \<Rightarrow> format_removed prev rest (out @ PATTERN_REMOVE pkg u))"

definition calculate_changes :: "string list \<Rightarrow> versions \<Rightarrow> versions \<Rightarrow> error + string" where
  "calculate_changes pkgs prev cur =
     (let st = diff_loop pkgs prev cur in
      case format_added cur (added st) [] of
        Inl e \<Rightarrow> Inl e
      | Inr out1 \<Rightarrow>
          (case format_changed prev cur (changed st) out1 of
             Inl e \<Rightarrow> Inl e
           | Inr out2 \<Rightarrow> format_removed prev (removed st) out2))"

text \<open>The rows of a returned text, one per reported package.\<close>

definition added_rows :: "versions \<Rightarrow> string list \<Rightarrow> string list" where
  "added_rows cur ps = map (\<lambda>p. PATTERN_ADD p (the (cur p))) ps"

definition changed_rows :: "versions \<Rightarrow> versions \<Rightarrow> string list \<Rightarrow> string list" where
  "changed_rows prev cur ps = map (\<lambda>p. PATTERN_CHANGE p (the (prev p)) (the (cur p))) ps"

definition removed_rows :: "versions \<Rightarrow> string list \<Rightarrow> string list" where
  "removed_rows prev ps = map (\<lambda>p. PATTERN_REMOVE p (the (prev p))) ps"

text \<open>What holds of the state throughout the first loop: the versions of the anchor packages
  stay suppressed, and each list holds only names of its own case.\<close>

definition diff_inv :: "versions \<Rightarrow> versions \<Rightarrow> diff_state \<Rightarrow> bool" where
  "diff_inv prev cur st \<longleftrightarrow>
     set (map cur BLACKLIST_VERSIONS) \<subseteq> blacklist_ver st \<and>
     (\<forall>p \<in> set (added st). prev p = None \<and> p \<notin> set BLACKLIST_VERSIONS \<and>
        (cur p \<noteq> None \<longrightarrow> cur p \<notin> set (map cur BLACKLIST_VERSIONS))) \<and>
     (\<forall>p \<in> set (removed st). prev p \<noteq> None \<and> cur p = None) \<and>
     (\<forall>p \<in> set (changed st). prev p \<noteq> None \<and> cur p \<noteq> None \<and> prev p \<noteq> cur p \<and>
        cur p \<notin> set (map cur BLACKLIST_VERSIONS))"

text \<open>Concrete inputs: the maps of the scenario with \<open>foo\<close>, \<open>kernel\<close> and \<open>bar\<close>.\<close>

definition scenario_prev :: versions where
  "scenario_prev = [''foo'' \<mapsto> ''1.0'', ''kernel'' \<mapsto> ''6.1'']"

definition scenario_curr :: versions where
  "scenario_curr = [''foo'' \<mapsto> ''1.1'', ''kernel'' \<mapsto> ''6.2'', ''bar'' \<mapsto> ''2.0'']"

definition order_prev :: versions where
  "order_prev = [''bbb'' \<mapsto> ''2.0'', ''ccc'' \<mapsto> ''3.0'']"

definition order_curr :: versions where
  "order_curr = [''aaa'' \<mapsto> ''1.0'', ''bbb'' \<mapsto> ''2.1'']"



section \<open>Package extractor and version normalizer\<close>

text \<open>A package dictionary of one image: names to version strings, in insertion order.\<close>

type_synonym packages = "(string \<times> string) list"

text \<open>\<open>get_packages\<close>: the images whose package label could be read, each with its dictionary.
  An image whose label raises is left out.\<close>

definition get_packages :: "manifests \<Rightarrow> (string \<times> packages) list" where
  "get_packages ms =
     List.map_filter (\<lambda>(img, m). map_option (\<lambda>pk. (img, pk)) (rechunk_packages m)) ms"

text \<open>\<open>re.sub(FEDORA_PATTERN, "", v)\<close> with the pattern \<^verbatim>\<open>\.fc\d\d\<close>: every match, found from left
  to right, is removed; the text after a match is searched from the end of the match.\<close>

fun FEDORA_PATTERN_sub :: "string \<Rightarrow> string" where
  "FEDORA_PATTERN_sub (a # b # c # d # e # rest) =
     (if a = CHR ''.'' \<and> b = CHR ''f'' \<and> c = CHR ''c'' \<and> is_digit d \<and> is_digit e
      then FEDORA_PATTERN_sub rest
      else a # FEDORA_PATTERN_sub (b # c # d # e # rest))"
| "FEDORA_PATTERN_sub s = s"

text \<open>\<open>get_versions\<close>: one dictionary for all images, a later entry for a name replacing an
  earlier one in place, as assignment to a \<open>dict\<close> does.\<close>

fun dict_set :: "string \<Rightarrow> 'v \<Rightarrow> (string \<times> 'v) list \<Rightarrow> (string \<times> 'v) list" where
  "dict_set k v [] = [(k, v)]"
| "dict_set k v ((k', v') # d) = (if k' = k then (k, v) # d else (k', v') # dict_set k v d)"

definition get_versions :: "manifests \<Rightarrow> (string \<times> string) list" where
  "get_versions ms =
     fold (\<lambda>(img, img_pkgs) versions.
             fold (\<lambda>(pkg, v) vs. dict_set pkg (FEDORA_PATTERN_sub v) vs) img_pkgs versions)
          (get_packages ms) []"

section \<open>Group reconciler\<close>

definition IMAGES :: "string list" where
  "IMAGES = [''serpentine'', ''serpentine-nvidia'']"

text \<open>\<open>sub in s\<close> on strings.\<close>

fun contains :: "string \<Rightarrow> string \<Rightarrow> bool" where
  "contains sub [] = (sub = [])"
| "contains sub (c # cs) = (prefix sub (c # cs) \<or> contains sub cs)"

text \<open>The body of the loop of \<open>get_images\<close>: the image with its base and its desktop.\<close>

definition classify_image :: "string \<Rightarrow> string \<times> string \<times> string" where
  "classify_image img =
     (img,
      if contains ''deck'' img then ''deck'' else ''desktop'',
      if contains ''gnome'' img then ''gnome'' else ''kde'')"

definition get_images :: "(string \<times> string \<times> string) list" where
  "get_images = map classify_image IMAGES"

text \<open>The keys of \<open>OTHER_NAMES\<close>, each with the heading of its section.\<close>

definition OTHER_NAMES :: "(string \<times> string) list" where
  "OTHER_NAMES =
     [(''desktop'', ''### Desktop Images''),
      (''deck'', ''### Deck Images''),
      (''kde'', ''### KDE Images''),
      (''nvidia'', ''### Nvidia Images'')]"

text \<open>\<open>set(d.get(k, {}))\<close>: the package names of image \<open>k\<close>, none when \<open>k\<close> is not a key.
  A Python set is held as a list of its elements.\<close>

definition package_names :: "(string \<times> packages) list \<Rightarrow> string \<Rightarrow> string list" where
  "package_names d k = (case map_of d k of None \<Rightarrow> [] | Some ps \<Rightarrow> map fst ps)"

text \<open>The dictionary \<open>pkg\<close>: for every key of \<open>npkg\<close> or \<open>ppkg\<close>, the names of the current and of
  the previous packages of that image.\<close>

definition pkg_universe ::
  "(string \<times> packages) list \<Rightarrow> (string \<times> packages) list \<Rightarrow> string \<Rightarrow> string list option" where
  "pkg_universe npkg ppkg k =
     (if k \<in> set (map fst npkg) \<union> set (map fst ppkg)
      then Some (package_names npkg k @ package_names ppkg k)
      else None)"

text \<open>The loop that finds the common packages; \<open>first\<close> is the flag of the source.\<close>

fun common_loop ::
  "(string \<Rightarrow> string list option) \<Rightarrow> (string \<times> string \<times> string) list \<Rightarrow> bool \<Rightarrow> string list
   \<Rightarrow> string list" where
  "common_loop pkg [] first common = common"
| "common_loop pkg ((img, base, de) # rest) first common =
     (case pkg img of
        None \<Rightarrow> common_loop pkg rest first common
      | Some ps \<Rightarrow>
          if first then common_loop pkg rest False (common @ ps)
          else common_loop pkg rest False (filter (\<lambda>c. c \<in> set ps) common))"

text \<open>The tests by which the loop of a group passes over an image.\<close>

definition group_skips :: "string \<Rightarrow> string \<Rightarrow> string \<Rightarrow> bool" where
  "group_skips t base de =
     ((t = ''nvidia'' \<and> \<not> contains ''nvidia'' base) \<or>
      (t = ''kde'' \<and> de \<noteq> ''kde'') \<or>
      (t = ''gnome'' \<and> de \<noteq> ''gnome'') \<or>
      (t = ''deck'' \<and> base \<noteq> ''deck'') \<or>
      (t = ''desktop'' \<and> base = ''deck''))"

fun other_loop ::
  "(string \<Rightarrow> string list option) \<Rightarrow> string list \<Rightarrow> string \<Rightarrow> (string \<times> string \<times> string) list
   \<Rightarrow> bool \<Rightarrow> string list \<Rightarrow> string list" where
  "other_loop pkg common t [] first other = other"
| "other_loop pkg common t ((img, base, de) # rest) first other =
     (case pkg img of
        None \<Rightarrow> other_loop pkg common t rest first other
      | Some ps \<Rightarrow>
          if group_skips t base de then other_loop pkg common t rest first other
          else if first
            then other_loop pkg common t rest False (other @ filter (\<lambda>p. p \<notin> set common) ps)
            else other_loop pkg common t rest False (filter (\<lambda>c. c \<in> set ps) other))"

text \<open>\<open>get_package_groups\<close> over a list of classified images; the source runs it over
  \<open>get_images()\<close>.\<close>

definition package_groups ::
  "(string \<times> string \<times> string) list \<Rightarrow> manifests \<Rightarrow> manifests
   \<Rightarrow> string list \<times> (string \<times> string list) list" where
  "package_groups images prev ms =
     (let npkg = get_packages ms;
          ppkg = get_packages prev;
          pkg = pkg_universe npkg ppkg;
          common = common_loop pkg images True [];
          others = map (\<lambda>t. (t, other_loop pkg common t images True [])) (map fst OTHER_NAMES)
      in (sort (remdups common), map (\<lambda>(k, v). (k, sort (remdups v))) others))"

definition get_package_groups ::
  "manifests \<Rightarrow> manifests \<Rightarrow> string list \<times> (string \<times> string list) list" where
  "get_package_groups prev ms = package_groups get_images prev ms"

text \<open>The universes of the images that the loops meet, in the order of the images.\<close>

definition present :: "(string \<Rightarrow> string list option) \<Rightarrow> (string \<times> string \<times> string) list
   \<Rightarrow> string list list" where
  "present pkg images = List.map_filter (\<lambda>(img, base, de). pkg img) images"

definition matching :: "(string \<Rightarrow> string list option) \<Rightarrow> string \<Rightarrow> (string \<times> string \<times> string) list
   \<Rightarrow> string list list" where
  "matching pkg t images =
     List.map_filter (\<lambda>(img, base, de). if group_skips t base de then None else pkg img) images"

text \<open>A manifest with other version strings for the same package names.\<close>

definition map_versions :: "(string \<Rightarrow> string \<Rightarrow> string) \<Rightarrow> manifest \<Rightarrow> manifest" where
  "map_versions f m =
     m\<lparr>rechunk_packages := map_option (map (\<lambda>(name, v). (name, f name v))) (rechunk_packages m)\<rparr>"

text \<open>Concrete manifests: two variants that share package \<open>x\<close>, and two variants whose package
  names differ by a Fedora suffix only.\<close>

definition manifest_of :: "packages \<Rightarrow> manifest" where
  "manifest_of pk = \<lparr>RepoTags = [], rechunk_packages = Some pk, revision = None, Created = None\<rparr>"

definition variants_prev :: manifests where
  "variants_prev =
     [(''serpentine'', manifest_of [(''x'', ''1.0-1.fc41''), (''y'', ''2.0-1.fc41'')]),
      (''serpentine-nvidia'', manifest_of [(''x'', ''1.0-1.fc41'')])]"

definition variants_curr :: manifests where
  "variants_curr =
     [(''serpentine'', manifest_of [(''x'', ''1.0-2.fc42'')]),
      (''serpentine-nvidia'', manifest_of [(''x'', ''1.0-3.fc42''), (''z'', ''3.0-1.fc42'')])]"

definition suffixed_curr :: manifests where
  "suffixed_curr =
     [(''serpentine'', manifest_of [(''lib.fc41'', ''1.0'')]),
      (''serpentine-nvidia'', manifest_of [(''lib'', ''1.0'')])]"

text \<open>In the specification's words: a variant is present when it is a key of the current or of
  the previous packages, and its universe is the union of its previous and current package
  names.\<close>

definition variant_present :: "manifests \<Rightarrow> manifests \<Rightarrow> string \<Rightarrow> bool" where
  "variant_present prev ms img \<longleftrightarrow>
     img \<in> fst ` set (get_packages ms) \<union> fst ` set (get_packages prev)"

definition variant_universe :: "manifests \<Rightarrow> manifests \<Rightarrow> string \<Rightarrow> string set" where
  "variant_universe prev ms img =
     set (package_names (get_packages ms) img) \<union> set (package_names (get_packages prev) img)"

section \<open>The order of iteration over a set\<close>

text \<open>
  Python does not fix the order in which a \<open>set\<close> of strings is walked: it changes with the
  hash seed of the run. In the functions above a set is a list and the loops over a set are
  written as filters. Here the order is a parameter: a set is still held as a list of its
  elements, a loop over the set runs over \<open>ord\<close> of that list, and all that is known of \<open>ord\<close> is
  that it lists every element once.
\<close>

type_synonym set_order = "string list \<Rightarrow> string list"

definition set_order_ok :: "set_order \<Rightarrow> bool" where
  "set_order_ok ord \<longleftrightarrow> (\<forall>xs. set (ord xs) = set xs \<and> distinct (ord xs))"

text \<open>\<open>for x in s.copy(): if not keep(x): s.remove(x)\<close>\<close>

definition discard_loop :: "set_order \<Rightarrow> (string \<Rightarrow> bool) \<Rightarrow> string list \<Rightarrow> string list" where
  "discard_loop ord keep s = fold (\<lambda>x s'. if keep x then s' else removeAll x s') (ord s) s"

text \<open>\<open>for x in xs: if want(x): s.add(x)\<close>, for a set \<open>xs\<close>\<close>

definition add_loop ::
  "set_order \<Rightarrow> (string \<Rightarrow> bool) \<Rightarrow> string list \<Rightarrow> string list \<Rightarrow> string list" where
  "add_loop ord want xs s =
     fold (\<lambda>x s'. if want x then (if x \<in> set s' then s' else s' @ [x]) else s') (ord xs) s"

fun remove_absent_ord :: "set_order \<Rightarrow> manifest list \<Rightarrow> string list \<Rightarrow> string list" where
  "remove_absent_ord ord [] tags = tags"
| "remove_absent_ord ord (m # ms) tags =
     remove_absent_ord ord ms (discard_loop ord (\<lambda>tag. tag \<in> set (RepoTags m)) tags)"

definition get_tags_ord ::
  "set_order \<Rightarrow> re_compile \<Rightarrow> string \<Rightarrow> manifests \<Rightarrow> error + (string \<times> string)" where
  "get_tags_ord ord re target ms =
     (case map snd ms of
        [] \<Rightarrow> Inl StopIteration
      | first # _ \<Rightarrow>
          (case collect_tags re target (RepoTags first) [] of
             Inl e \<Rightarrow> Inl e
           | Inr tags0 \<Rightarrow>
               let tags = sort (ord (remove_absent_ord ord (map snd ms) tags0)) in
               if length tags \<ge> 2
               then Inr (tags ! (length tags - 2), tags ! (length tags - 1))
               else Inl AssertionError))"

text \<open>The dictionary \<open>pkg\<close>, filled in a loop over the set \<open>keys\<close>.\<close>

definition pkg_dict ::
  "set_order \<Rightarrow> (string \<times> packages) list \<Rightarrow> (string \<times> packages) list
   \<Rightarrow> string \<Rightarrow> string list option" where
  "pkg_dict ord npkg ppkg =
     fold (\<lambda>k pkg. pkg(k \<mapsto> package_names npkg k @ package_names ppkg k))
          (ord (map fst npkg @ map fst ppkg)) Map.empty"

fun common_loop_ord ::
  "set_order \<Rightarrow> (string \<Rightarrow> string list option) \<Rightarrow> (string \<times> string \<times> string) list \<Rightarrow> bool
   \<Rightarrow> string list \<Rightarrow> string list" where
  "common_loop_ord ord pkg [] first common = common"
| "common_loop_ord ord pkg ((img, base, de) # rest) first common =
     (case pkg img of
        None \<Rightarrow> common_loop_ord ord pkg rest first common
      | Some ps \<Rightarrow>
          if first then common_loop_ord ord pkg rest False (add_loop ord (\<lambda>p. True) ps common)
          else common_loop_ord ord pkg rest False (discard_loop ord (\<lambda>c. c \<in> set ps) common))"

fun other_loop_ord ::
  "set_order \<Rightarrow> (string \<Rightarrow> string list option) \<Rightarrow> string list \<Rightarrow> string
   \<Rightarrow> (string \<times> string \<times> string) list \<Rightarrow> bool \<Rightarrow> string list \<Rightarrow> string list" where
  "other_loop_ord ord pkg common t [] first other = other"
| "other_loop_ord ord pkg common t ((img, base, de) # rest) first other =
     (case pkg img of
        None \<Rightarrow> other_loop_ord ord pkg common t rest first other
      | Some ps \<Rightarrow>
          if group_skips t base de then other_loop_ord ord pkg common t rest first other
          else if first
            then other_loop_ord ord pkg common t rest False
                   (add_loop ord (\<lambda>p. p \<notin> set common) ps other)
            else other_loop_ord ord pkg common t rest False
                   (discard_loop ord (\<lambda>c. c \<in> set ps) other))"

definition get_package_groups_ord ::
  "set_order \<Rightarrow> manifests \<Rightarrow> manifests \<Rightarrow> string list \<times> (string \<times> string list) list" where
  "get_package_groups_ord ord prev ms =
     (let npkg = get_packages ms;
          ppkg = get_packages prev;
          pkg = pkg_dict ord npkg ppkg;
          common = common_loop_ord ord pkg get_images True [];
          others = map (\<lambda>t. (t, other_loop_ord ord pkg common t get_images True []))
                       (map fst OTHER_NAMES)
      in (sort (ord common), map (\<lambda>(k, v). (k, sort (ord v))) others))"

section \<open>Document renderer\<close>

text \<open>
  What lies outside the script is a parameter: the regular expression library for the channel
  pattern, \<open>inspect_image\<close> (the manifest that \<open>skopeo inspect\<close> gives for a reference after the
  retries, \<open>None\<close> when there is none), the output of \<open>git log\<close> for a working directory and two
  revisions (\<open>None\<close> when the call raises), and the date of the upstream image made readable
  (\<open>strptime\<close> and \<open>strftime\<close>, then the fallback on a UNIX time; \<open>None\<close> when both raise).
\<close>

record environment =
  re_lib :: re_compile
  inspect_image :: "string \<Rightarrow> manifest option"
  git_log :: "string \<Rightarrow> string \<Rightarrow> string \<Rightarrow> string option"
  format_created :: "string \<Rightarrow> string option"

definition NL :: char where
  "NL = CHR 0x0A"

text \<open>Text given line by line, every line ended by a newline.\<close>

definition lines :: "string list \<Rightarrow> string" where
  "lines ls = concat (map (\<lambda>l. l @ [NL]) ls)"

text \<open>\<open>s.replace(old, new)\<close>: the occurrences of \<open>old\<close> from left to right, not overlapping.\<close>

function replace :: "string \<Rightarrow> string \<Rightarrow> string \<Rightarrow> string" where
  "replace old new [] = (if old = [] then new else [])"
| "replace old new (c # cs) =
     (if old = [] then new @ c # replace old new cs
      else if prefix old (c # cs) then new @ replace old new (drop (length old) (c # cs))
      else c # replace old new cs)"
  by pat_completeness auto
termination
  by (relation "measure (\<lambda>(old, new, s). length s)") auto

definition UPSTREAM_IMAGE :: string where
  "UPSTREAM_IMAGE = ''ublue-os/bazzite-deck''"

definition UPSTREAM_REGISTRY :: string where
  "UPSTREAM_REGISTRY = ''docker://ghcr.io/''"

definition MAJOR_PACKAGES :: "string list" where
  "MAJOR_PACKAGES =
     [''| Name | Version |'',
      ''| --- | --- |'',
      ''| **Kernel** | {pkgrel:kernel} |'',
      ''| **Firmware** | {pkgrel:atheros-firmware} |'',
      ''| **Mesa** | {pkgrel:mesa-filesystem} |'',
      ''| **Gamescope** | {pkgrel:gamescope} |'',
      ''| **KDE** | {pkgrel:plasma-desktop} |'',
      ''| **[HHD](https://github.com/hhd-dev/hhd)** | {pkgrel:hhd} |'']"

definition TABLE_HEAD :: string where
  "TABLE_HEAD = ''| | Name | Previous | New |'' @ [NL] @ ''| --- | --- | --- | --- |''"

text \<open>\<open>COMMON_PAT\<close> and the values of \<open>OTHER_NAMES\<close>, with \<open>changes\<close> put in by \<open>format\<close>.\<close>

definition table_section :: "string \<Rightarrow> string \<Rightarrow> string" where
  "table_section heading changes = heading @ [NL] @ TABLE_HEAD @ changes @ [NL, NL]"

definition COMMON_PAT :: "string \<Rightarrow> string" where
  "COMMON_PAT changes = table_section ''### All Images'' changes"

text \<open>\<open>UPSTREAM_PAT.format(changes=..., upstream_tag=..., upstream_created=...)\<close>\<close>

definition UPSTREAM_PAT :: "string \<Rightarrow> string \<Rightarrow> string \<Rightarrow> string" where
  "UPSTREAM_PAT changes upstream_tag upstream_created =
     ''### Upstream Base Image ['' @ UPSTREAM_IMAGE @
       ''](https://github.com/ublue-os/bazzite/releases/tag/'' @ upstream_tag @ '')'' @ [NL] @
     ''**Release Date:** '' @ upstream_created @ [NL] @
     [NL] @
     ''#### Major packages (from upstream: '' @ UPSTREAM_IMAGE @ '')'' @ [NL] @
     lines MAJOR_PACKAGES @
     [NL] @
     ''#### Package changes (from upstream: '' @ UPSTREAM_IMAGE @ '')'' @ [NL] @
     TABLE_HEAD @ changes @ [NL, NL]"

definition COMMITS_FORMAT :: "string \<Rightarrow> string" where
  "COMMITS_FORMAT commits =
     ''### Commits'' @ [NL] @ ''| Hash | Subject | Author |'' @ [NL] @ ''| --- | --- | --- |'' @
     commits @ [NL, NL]"

definition COMMIT_FORMAT :: string where
  "COMMIT_FORMAT =
     [NL] @ ''| **[{short}](https://github.com/bogdan-d/serpentine/commit/{hash})** | {subject} | {author} |''"

definition CHANGELOG_TITLE :: "string \<Rightarrow> string \<Rightarrow> string" where
  "CHANGELOG_TITLE tag pretty = tag @ '': '' @ pretty"

definition CHANGELOG_FORMAT :: string where
  "CHANGELOG_FORMAT =
     lines
       ([''{handwritten}'',
         '''',
         ''From previous `{target}` version `{prev}` there have been the following changes. **One package per new version shown.**'',
         '''',
         ''### Major packages''] @
        MAJOR_PACKAGES @
        ['''',
         ''{changes}'',
         '''',
         ''### How to rebase'',
         ''For current users, type the following to rebase to this version:'',
         ''```bash'',
         ''# For this branch (if latest):'',
         ''serpentine-rollback-helper rebase {target}'',
         ''# For this specific image:'',
         ''serpentine-rollback-helper rebase {curr}'',
         ''```''])"

definition HANDWRITTEN_PLACEHOLDER :: string where
  "HANDWRITTEN_PLACEHOLDER = ''This is an automatically generated changelog for release `{curr}`.''"

text \<open>\<open>PATTERN_PKGREL_CHANGED\<close>; the arrow is the UTF-8 bytes of U+27A1 U+FE0F.\<close>

definition PATTERN_PKGREL_CHANGED :: "string \<Rightarrow> string \<Rightarrow> string" where
  "PATTERN_PKGREL_CHANGED prev new =
     prev @ '' '' @ [CHR 0xE2, CHR 0x9E, CHR 0xA1, CHR 0xEF, CHR 0xB8, CHR 0x8F] @ '' '' @ new"

text \<open>The body of the loop that fills in the \<open>pkgrel\<close> placeholders.\<close>

definition pkgrel_replace :: "(string \<times> string) list \<Rightarrow> string \<times> string \<Rightarrow> string \<Rightarrow> string" where
  "pkgrel_replace prev_versions = (\<lambda>(pkg, v) text.
     (case map_of prev_versions pkg of
        None \<Rightarrow> replace (''{pkgrel:'' @ pkg @ ''}'') v text
      | Some pv \<Rightarrow>
          if pv = v then replace (''{pkgrel:'' @ pkg @ ''}'') v text
          else replace (''{pkgrel:'' @ pkg @ ''}'') (PATTERN_PKGREL_CHANGED pv v) text))"

subsection \<open>The generated title\<close>

text \<open>
  Channel names and tags are parts of image references and hold ASCII characters only; on
  these \<open>capitalize\<close>, \<open>lower\<close> and the digit class are the ASCII ones.
\<close>

definition ascii_lower :: "char \<Rightarrow> char" where
  "ascii_lower c =
     (case map_of (zip ''ABCDEFGHIJKLMNOPQRSTUVWXYZ'' ''abcdefghijklmnopqrstuvwxyz'') c of
        None \<Rightarrow> c
      | Some l \<Rightarrow> l)"

definition ascii_upper :: "char \<Rightarrow> char" where
  "ascii_upper c =
     (case map_of (zip ''abcdefghijklmnopqrstuvwxyz'' ''ABCDEFGHIJKLMNOPQRSTUVWXYZ'') c of
        None \<Rightarrow> c
      | Some u \<Rightarrow> u)"

definition capitalize :: "string \<Rightarrow> string" where
  "capitalize s = (case s of [] \<Rightarrow> [] | c # cs \<Rightarrow> ascii_upper c # map ascii_lower cs)"

text \<open>\<open>re.sub(r"\.\d{1,2}$", "", curr)\<close>. A match ends at the end of the string, or before a
  newline that ends the string. \<open>strip_patch_rev\<close> works on the reversed string.\<close>

fun strip_patch_rev :: "string \<Rightarrow> string" where
  "strip_patch_rev (e # d # c # rest) =
     (if is_digit e \<and> is_digit d \<and> c = CHR ''.'' then rest
      else if is_digit e \<and> d = CHR ''.'' then c # rest
      else e # d # c # rest)"
| "strip_patch_rev [e, d] = (if is_digit e \<and> d = CHR ''.'' then [] else [e, d])"
| "strip_patch_rev s = s"

definition strip_patch :: "string \<Rightarrow> string" where
  "strip_patch s =
     (case rev s of
        c # r \<Rightarrow> if c = NL then rev (c # strip_patch_rev r) else rev (strip_patch_rev (c # r))
      | [] \<Rightarrow> [])"

text \<open>\<open>re.sub(rf"^[a-z]+-", "", s)\<close>\<close>

definition is_lower :: "char \<Rightarrow> bool" where
  "is_lower c = (CHR ''a'' \<le> c \<and> c \<le> CHR ''z'')"

definition strip_channel :: "string \<Rightarrow> string" where
  "strip_channel s =
     (case dropWhile is_lower s of
        c # rest \<Rightarrow> if takeWhile is_lower s \<noteq> [] \<and> c = CHR ''-'' then rest else s
      | [] \<Rightarrow> s)"

text \<open>\<open>next(iter(ms.values()))["Labels"]["org.opencontainers.image.revision"]\<close>, \<open>None\<close> when it
  raises.\<close>

definition first_revision :: "manifests \<Rightarrow> string option" where
  "first_revision ms = (case ms of [] \<Rightarrow> None | (img, m) # _ \<Rightarrow> revision m)"

definition make_pretty :: "string \<Rightarrow> string \<Rightarrow> manifests \<Rightarrow> string" where
  "make_pretty target curr_tag ms =
     (let finish = (case first_revision ms of None \<Rightarrow> [] | Some r \<Rightarrow> r);
          curr_pretty = strip_channel (strip_patch curr_tag);
          pretty = capitalize target @ '' (F'' @ curr_pretty;
          pretty = (if finish \<noteq> [] \<and> target \<noteq> ''stable''
                    then pretty @ '', #'' @ take 7 finish else pretty)
      in pretty @ '')'')"

subsection \<open>Commits\<close>

text \<open>\<open>s.split(sep)\<close> for a separator of one character.\<close>

fun split_on :: "char \<Rightarrow> string \<Rightarrow> string list" where
  "split_on sep [] = [[]]"
| "split_on sep (c # cs) =
     (if c = sep then [] # split_on sep cs
      else (case split_on sep cs of w # ws \<Rightarrow> (c # w) # ws | [] \<Rightarrow> [[c]]))"

text \<open>\<open>subject.lower().startswith("merge")\<close>: no character outside ASCII has one of the
  letters of \<open>merge\<close> as its lower case, so the first five bytes decide.\<close>

definition is_merge :: "string \<Rightarrow> bool" where
  "is_merge subject = (map ascii_lower (take 5 subject) = ''merge'')"

text \<open>The loop over the lines of the log. Unpacking a line of more than four parts raises;
  that is the result \<open>None\<close>.\<close>

fun commit_rows :: "string list \<Rightarrow> string \<Rightarrow> string option" where
  "commit_rows [] out = Some out"
| "commit_rows (commit # rest) out =
     (if commit = [] then commit_rows rest out
      else
        (case split_on (CHR ''|'') commit of
           [commit_hash, short, author, subject] \<Rightarrow>
             if is_merge subject then commit_rows rest out
             else commit_rows rest
               (out @ replace ''{author}'' author (replace ''{hash}'' commit_hash
                  (replace ''{subject}'' subject (replace ''{short}'' short COMMIT_FORMAT))))
         | parts \<Rightarrow> if length parts < 4 then commit_rows rest out else None))"

definition get_commits ::
  "environment \<Rightarrow> manifests \<Rightarrow> manifests \<Rightarrow> string option \<Rightarrow> string" where
  "get_commits env prev_manifests ms workdir =
     (case workdir of
        None \<Rightarrow> []
      | Some w \<Rightarrow>
          if w = [] then []
          else
            (case first_revision prev_manifests of
               None \<Rightarrow> []
             | Some start \<Rightarrow>
                 (case first_revision ms of
                    None \<Rightarrow> []
                  | Some finish \<Rightarrow>
                      (case git_log env w start finish of
                         None \<Rightarrow> []
                       | Some commits \<Rightarrow>
                           (case commit_rows (split_on NL commits) [] of
                              None \<Rightarrow> []
                            | Some out \<Rightarrow> if out \<noteq> [] then COMMITS_FORMAT out else [])))))"

subsection \<open>The upstream section\<close>

definition get_upstream_manifests :: "environment \<Rightarrow> string \<Rightarrow> manifests" where
  "get_upstream_manifests env target =
     (case inspect_image env (UPSTREAM_REGISTRY @ UPSTREAM_IMAGE @ '':'' @ target) of
        None \<Rightarrow> []
      | Some manifest \<Rightarrow> [(UPSTREAM_IMAGE, manifest)])"

text \<open>The manifests given in advance are a dictionary or \<open>None\<close>; both \<open>None\<close> and the empty
  dictionary are the empty list. Every exception inside \<open>get_upstream_section\<close> is caught and
  gives the empty text.\<close>

definition get_upstream_section ::
  "set_order \<Rightarrow> environment \<Rightarrow> string \<Rightarrow> manifests \<Rightarrow> manifests \<Rightarrow> string" where
  "get_upstream_section ord env target upstream_curr_manifests upstream_prev_manifests =
     (let upstream_curr =
            (if upstream_curr_manifests \<noteq> [] then upstream_curr_manifests
             else get_upstream_manifests env target)
      in if upstream_curr = [] then []
         else
           (case get_tags_ord ord (re_lib env) target upstream_curr of
              Inl e \<Rightarrow> []
            | Inr (prev_tag, curr_tag) \<Rightarrow>
                let upstream_prev =
                      (if upstream_prev_manifests \<noteq> [] then upstream_prev_manifests
                       else get_upstream_manifests env prev_tag);
                    prev_versions = get_versions upstream_prev;
                    curr_versions = get_versions upstream_curr;
                    pkgs = sort (ord (map fst prev_versions @ map fst curr_versions))
                in (case calculate_changes pkgs (map_of prev_versions) (map_of curr_versions) of
                      Inl e \<Rightarrow> []
                    | Inr chg \<Rightarrow>
                        if chg = [] then []
                        else
                          let upstream_created =
                                (case upstream_curr of
                                   [] \<Rightarrow> ''unknown''
                                 | (img, first) # _ \<Rightarrow>
                                     (case Created first of
                                        None \<Rightarrow> ''unknown''
                                      | Some c \<Rightarrow>
                                          if c = [] then ''unknown''
                                          else (case format_created env c of
                                                  None \<Rightarrow> ''unknown''
                                                | Some d \<Rightarrow> d)))
                          in fold (pkgrel_replace prev_versions) curr_versions
                               (UPSTREAM_PAT chg curr_tag upstream_created))))"

subsection \<open>The changelog\<close>

text \<open>The loop over \<open>others.items()\<close>.\<close>

fun others_sections ::
  "(string \<times> string list) list \<Rightarrow> versions \<Rightarrow> versions \<Rightarrow> string \<Rightarrow> error + string" where
  "others_sections [] prev cur changes = Inr changes"
| "others_sections ((k, v) # rest) prev cur changes =
     (case calculate_changes v prev cur of
        Inl e \<Rightarrow> Inl e
      | Inr chg \<Rightarrow>
          if chg = [] then others_sections rest prev cur changes
          else
            (case map_of OTHER_NAMES k of
               None \<Rightarrow> Inl (KeyError k)
             | Some heading \<Rightarrow>
                 others_sections rest prev cur (changes @ table_section heading chg)))"

definition generate_changelog ::
  "set_order \<Rightarrow> environment \<Rightarrow> string option \<Rightarrow> string \<Rightarrow> string option \<Rightarrow> string option
   \<Rightarrow> manifests \<Rightarrow> manifests \<Rightarrow> manifests \<Rightarrow> manifests \<Rightarrow> error + (string \<times> string)" where
  "generate_changelog ord env handwritten target pretty workdir prev_manifests ms
     upstream_curr_manifests upstream_prev_manifests =
     (let (common, others) = get_package_groups_ord ord prev_manifests ms;
          versions = get_versions ms;
          prev_versions = get_versions prev_manifests
      in case get_tags_ord ord (re_lib env) target ms of
           Inl e \<Rightarrow> Inl e
         | Inr (prev_tag, curr_tag) \<Rightarrow>
             let pretty' =
                   (case pretty of
                      None \<Rightarrow> make_pretty target curr_tag ms
                    | Some p \<Rightarrow> if p = [] then make_pretty target curr_tag ms else p);
                 title = CHANGELOG_TITLE curr_tag pretty';
                 intro =
                   (case handwritten of
                      None \<Rightarrow> HANDWRITTEN_PLACEHOLDER
                    | Some h \<Rightarrow> if h = [] then HANDWRITTEN_PLACEHOLDER else h);
                 changelog =
                   replace ''{curr}'' curr_tag (replace ''{prev}'' prev_tag
                     (replace ''{target}'' target (replace ''{handwritten}'' intro CHANGELOG_FORMAT)));
                 changelog = fold (pkgrel_replace prev_versions) versions changelog;
                 changes = get_commits env prev_manifests ms workdir @
                   get_upstream_section ord env target upstream_curr_manifests upstream_prev_manifests
             in (case calculate_changes common (map_of prev_versions) (map_of versions) of
                   Inl e \<Rightarrow> Inl e
                 | Inr common_changes \<Rightarrow>
                     (case others_sections others (map_of prev_versions) (map_of versions)
                             (if common_changes = [] then changes
                              else changes @ COMMON_PAT common_changes) of
                        Inl e \<Rightarrow> Inl e
                      | Inr changes' \<Rightarrow> Inr (title, replace ''{changes}'' changes' changelog))))"

text \<open>Concrete inputs for the renderer: two orders of iteration, an environment in which every
  outside call fails, and the manifests of two releases of the two images.\<close>

definition insertion_order :: set_order where
  "insertion_order xs = remdups xs"

definition reverse_order :: set_order where
  "reverse_order xs = rev (remdups xs)"

definition offline :: environment where
  "offline = \<lparr>re_lib = no_re, inspect_image = (\<lambda>ref. None), git_log = (\<lambda>w s f. None),
     format_created = (\<lambda>c. None)\<rparr>"

definition release_prev :: manifests where
  "release_prev =
     [(''serpentine'',
       \<lparr>RepoTags = [''43.1'', ''43.2''],
        rechunk_packages = Some [(''kernel'', ''6.1-1.fc43''), (''foo'', ''1.0-1.fc43'')],
        revision = Some ''1111111aaaa'', Created = None\<rparr>),
      (''serpentine-nvidia'',
       \<lparr>RepoTags = [''43.2'', ''43.1''],
        rechunk_packages = Some [(''foo'', ''1.0-1.fc43''), (''kernel'', ''6.1-1.fc43'')],
        revision = Some ''1111111aaaa'', Created = None\<rparr>)]"

definition release_curr :: manifests where
  "release_curr =
     [(''serpentine'',
       \<lparr>RepoTags = [''43.1'', ''43.2''],
        rechunk_packages =
          Some [(''kernel'', ''6.2-1.fc43''), (''foo'', ''1.1-1.fc43''), (''bar'', ''2.0-1.fc43'')],
        revision = Some ''2222222bbbb'', Created = None\<rparr>),
      (''serpentine-nvidia'',
       \<lparr>RepoTags = [''43.2'', ''43.1''],
        rechunk_packages =
          Some [(''bar'', ''2.0-1.fc43''), (''foo'', ''1.1-1.fc43''), (''kernel'', ''6.2-1.fc43'')],
        revision = Some ''2222222bbbb'', Created = None\<rparr>)]"

section \<open>Properties of the tag selector\<close>

lemma collect_tags_Inr:
  "collect_tags re target xs acc = Inr r \<Longrightarrow>
   set r = set acc \<union> {t \<in> set xs. \<not> endswith t ''.0'' \<and> matches_channel re target t}"
  by (induction xs arbitrary: acc) (auto simp: matches_channel_def split: if_splits option.splits)

lemma collect_tags_Inl:
  "collect_tags re target xs acc = Inl e \<Longrightarrow>
   target \<noteq> ''stable'' \<and> OTHER_START_PATTERN re target = None \<and> e = ReError"
  by (induction xs arbitrary: acc) (auto split: if_splits option.splits)

lemma set_remove_absent:
  "set (remove_absent ms tags) = {t \<in> set tags. \<forall>m \<in> set ms. t \<in> set (RepoTags m)}"
  by (induction ms arbitrary: tags) auto

lemma length_sort_remdups: "length (sort (remdups xs)) = card (set xs)"
  by (simp add: length_remdups_card_conv)

text \<open>The qualifying tags as a list computation, for evaluation on concrete manifests.\<close>

lemma qualifying_tags_list:
  "qualifying_tags re target ms =
     set (filter (\<lambda>tag. matches_channel re target tag \<and> \<not> endswith tag ''.0'' \<and>
                        list_all (\<lambda>(img, m). tag \<in> set (RepoTags m)) ms)
                 (concat (map (\<lambda>(img, m). RepoTags m) ms)))"
  by (auto simp: qualifying_tags_def list_all_iff)

lemma finite_qualifying_tags: "finite (qualifying_tags re target ms)"
  unfolding qualifying_tags_list by (rule finite_set)

lemma qualifying_tags_Nil: "qualifying_tags re target [] = {}"
  by (simp add: qualifying_tags_def)

lemma qualifying_tags_first:
  "qualifying_tags re target ((img, first) # rest) =
     {tag \<in> set (RepoTags first). matches_channel re target tag \<and> \<not> endswith tag ''.0'' \<and>
        (\<forall>m \<in> set (map snd ((img, first) # rest)). tag \<in> set (RepoTags m))}"
  by (auto simp: qualifying_tags_def)

lemma qualifying_tags_no_pattern:
  "target \<noteq> ''stable'' \<Longrightarrow> OTHER_START_PATTERN re target = None \<Longrightarrow>
   qualifying_tags re target ms = {}"
  by (auto simp: qualifying_tags_def matches_channel_def)

text \<open>After both loops the set \<open>tags\<close> holds exactly the qualifying tags.\<close>

lemma remove_absent_qualifying:
  assumes "collect_tags re target (RepoTags first) [] = Inr tags0"
  shows "set (remove_absent (map snd ((img, first) # rest)) tags0) =
         qualifying_tags re target ((img, first) # rest)"
  unfolding set_remove_absent qualifying_tags_first collect_tags_Inr[OF assms] by auto

lemma get_tags_returns:
  "(card (qualifying_tags re target ms) < 2 \<longrightarrow> (\<exists>e. get_tags re target ms = Inl e)) \<and>
   (2 \<le> card (qualifying_tags re target ms) \<longrightarrow> (\<exists>p c. get_tags re target ms = Inr (p, c)))"
proof (cases ms)
  case Nil
  then show ?thesis by (simp add: get_tags_def qualifying_tags_Nil)
next
  case (Cons a rest)
  obtain img first where a: "a = (img, first)" by (cases a)
  show ?thesis
  proof (cases "collect_tags re target (RepoTags first) []")
    case (Inl e)
    from collect_tags_Inl[OF Inl] have "qualifying_tags re target ms = {}"
      by (simp add: qualifying_tags_no_pattern)
    with Inl show ?thesis by (simp add: get_tags_def Cons a)
  next
    case (Inr tags0)
    have "length (sort (remdups (remove_absent (map snd ms) tags0))) =
          card (qualifying_tags re target ms)"
      unfolding length_sort_remdups Cons a remove_absent_qualifying[OF Inr] ..
    with Inr show ?thesis by (simp add: get_tags_def Cons a Let_def)
  qed
qed

text \<open>In a sorted list without duplicates the last two entries are the two greatest, in order.\<close>

lemma last_two_sorted:
  fixes xs :: "('a::linorder) list"
  assumes "sorted xs" "distinct xs" "2 \<le> length xs"
  defines "p \<equiv> xs ! (length xs - 2)" and "c \<equiv> xs ! (length xs - 1)"
  shows "p \<in> set xs" "c \<in> set xs" "p < c" "\<forall>t \<in> set xs. t \<le> c"
    "\<forall>t \<in> set xs. t \<noteq> c \<longrightarrow> t \<le> p"
proof -
  show "p \<in> set xs" "c \<in> set xs" using assms(3) by (simp_all add: p_def c_def)
  have "sorted_wrt (<) xs" using assms(1,2) by (simp add: strict_sorted_iff)
  then show "p < c" unfolding p_def c_def
    using assms(3) sorted_wrt_nth_less[of "(<)" xs "length xs - 2" "length xs - 1"] by auto
  show "\<forall>t \<in> set xs. t \<le> c"
  proof
    fix t assume "t \<in> set xs"
    then obtain i where "i < length xs" "t = xs ! i" by (auto simp: in_set_conv_nth)
    then show "t \<le> c" unfolding c_def using assms(1) by (auto intro!: sorted_nth_mono)
  qed
  show "\<forall>t \<in> set xs. t \<noteq> c \<longrightarrow> t \<le> p"
  proof (intro ballI impI)
    fix t assume "t \<in> set xs" "t \<noteq> c"
    then obtain i where i: "i < length xs" "t = xs ! i" by (auto simp: in_set_conv_nth)
    with \<open>t \<noteq> c\<close> have "i \<noteq> length xs - 1" by (auto simp: c_def)
    with i have "i \<le> length xs - 2" by arith
    then show "t \<le> p" unfolding p_def i(2) using assms(1,3) by (auto intro!: sorted_nth_mono)
  qed
qed

lemma get_tags_Inr_greatest:
  assumes "get_tags re target ms = Inr (p, c)"
  shows "p \<in> qualifying_tags re target ms \<and> c \<in> qualifying_tags re target ms \<and> p < c \<and>
         (\<forall>t \<in> qualifying_tags re target ms. t \<le> c) \<and>
         (\<forall>t \<in> qualifying_tags re target ms. t \<noteq> c \<longrightarrow> t \<le> p)"
proof -
  from assms obtain a rest where ms: "ms = a # rest" by (cases ms) (auto simp: get_tags_def)
  obtain img first where a: "a = (img, first)" by (cases a)
  from assms obtain tags0 where t0: "collect_tags re target (RepoTags first) [] = Inr tags0"
    by (cases "collect_tags re target (RepoTags first) []") (auto simp: get_tags_def ms a)
  define xs where "xs = sort (remdups (remove_absent (map snd ms) tags0))"
  have set: "set xs = qualifying_tags re target ms"
    using remove_absent_qualifying[OF t0, of img rest] by (simp add: xs_def ms a)
  from assms t0 have len: "2 \<le> length xs"
    and pc: "p = xs ! (length xs - 2)" "c = xs ! (length xs - 1)"
    by (auto simp: get_tags_def ms a Let_def xs_def split: if_splits)
  have s: "sorted xs" "distinct xs" by (simp_all add: xs_def)
  show ?thesis using last_two_sorted[OF s len] unfolding pc[symmetric] set by blast
qed

text \<open>
  C1, as the code has it. On the stable channel, when every manifest lists the tags \<open>23.9\<close>,
  \<open>23.10\<close> and \<open>23.10.0\<close>, \<open>get_tags\<close> returns a pair; \<open>23.10.0\<close> does not qualify while \<open>23.9\<close> and
  \<open>23.10\<close> do; the pair is the two greatest qualifying tags in the plain lexicographic order of
  strings, previous below current. In that order \<open>23.10\<close> is below \<open>23.9\<close>, so the pair is never
  (\<open>23.9\<close>, \<open>23.10\<close>), and it is (\<open>23.10\<close>, \<open>23.9\<close>) when no other tag qualifies.
\<close>

theorem get_tags_stable_lexicographic:
  assumes "ms \<noteq> []"
    and "\<forall>(img, m) \<in> set ms. {''23.9'', ''23.10'', ''23.10.0''} \<subseteq> set (RepoTags m)"
  shows "\<exists>p c. get_tags re ''stable'' ms = Inr (p, c) \<and>
           ''23.10.0'' \<notin> qualifying_tags re ''stable'' ms \<and>
           {''23.9'', ''23.10''} \<subseteq> qualifying_tags re ''stable'' ms \<and>
           p \<in> qualifying_tags re ''stable'' ms \<and> c \<in> qualifying_tags re ''stable'' ms \<and> p < c \<and>
           (\<forall>t \<in> qualifying_tags re ''stable'' ms. t \<le> c) \<and>
           (\<forall>t \<in> qualifying_tags re ''stable'' ms. t \<noteq> c \<longrightarrow> t \<le> p) \<and>
           (p, c) \<noteq> (''23.9'', ''23.10'') \<and>
           (qualifying_tags re ''stable'' ms = {''23.9'', ''23.10''} \<longrightarrow>
              (p, c) = (''23.10'', ''23.9''))"
proof -
  let ?Q = "qualifying_tags re ''stable'' ms"
  from assms(1) obtain a rest where ms: "ms = a # rest" by (cases ms) auto
  have no: "''23.10.0'' \<notin> ?Q" by (simp add: qualifying_tags_def endswith_def)
  have sub: "{''23.9'', ''23.10''} \<subseteq> ?Q"
    using assms(2)
    by (auto simp: qualifying_tags_def endswith_def matches_channel_def is_digit_def ms)
  have "card {''23.9'', ''23.10''} \<le> card ?Q"
    by (rule card_mono[OF finite_qualifying_tags sub])
  then have "2 \<le> card ?Q" by simp
  with get_tags_returns[of re "''stable''" ms]
  obtain p c where pc: "get_tags re ''stable'' ms = Inr (p, c)" by auto
  note g = get_tags_Inr_greatest[OF pc]
  have lt: "''23.10'' < ''23.9''" by simp
  have ne: "(p, c) \<noteq> (''23.9'', ''23.10'')" using g lt by auto
  have ex: "?Q = {''23.9'', ''23.10''} \<longrightarrow> (p, c) = (''23.10'', ''23.9'')"
    using g lt by auto
  show ?thesis using pc no sub g ne ex by blast
qed

theorem get_tags_stable_lexicographic_witness:
  "get_tags no_re ''stable'' [(''serpentine'', scenario_manifest)] = Inr (''23.10'', ''23.9'')"
proof -
  have q: "qualifying_tags no_re ''stable'' [(''serpentine'', scenario_manifest)] = {''23.9'', ''23.10''}"
    by (simp add: qualifying_tags_list scenario_manifest_def matches_channel_def endswith_def
        is_digit_def)
  show ?thesis
    using get_tags_stable_lexicographic[of "[(''serpentine'', scenario_manifest)]" no_re] q
    by (auto simp: scenario_manifest_def)
qed

text \<open>
  C1, as the specification states it, fails: on the scenario's manifests the pair returned is
  (\<open>23.10\<close>, \<open>23.9\<close>), not (\<open>23.9\<close>, \<open>23.10\<close>).
\<close>

theorem get_tags_scenario_counterexample:
  "get_tags no_re ''stable'' scenario_manifests = Inr (''23.10'', ''23.9'') \<and>
   get_tags no_re ''stable'' scenario_manifests \<noteq> Inr (''23.9'', ''23.10'')"
  by (simp add: get_tags_def scenario_manifests_def scenario_manifest_def endswith_def is_digit_def)


section \<open>Properties of the diff engine\<close>

lemma added_diff_step:
  "added (diff_step prev cur pkg st) =
     added st @ (if \<not> skipped prev cur st pkg \<and> prev pkg = None then [pkg] else [])"
  by (simp add: diff_step_def skipped_def Let_def)

lemma removed_diff_step:
  "removed (diff_step prev cur pkg st) =
     removed st @ (if \<not> skipped prev cur st pkg \<and> prev pkg \<noteq> None \<and> cur pkg = None then [pkg] else [])"
  by (simp add: diff_step_def skipped_def Let_def)

lemma changed_diff_step:
  "changed (diff_step prev cur pkg st) =
     changed st @ (if \<not> skipped prev cur st pkg \<and> prev pkg \<noteq> None \<and> cur pkg \<noteq> None \<and> prev pkg \<noteq> cur pkg
                   then [pkg] else [])"
  by (simp add: diff_step_def skipped_def Let_def)

lemma blacklist_ver_diff_step:
  "blacklist_ver (diff_step prev cur pkg st) =
     (if skipped prev cur st pkg then blacklist_ver st
      else insert (prev pkg) (insert (cur pkg) (blacklist_ver st)))"
  by (auto simp add: diff_step_def skipped_def Let_def)

lemmas diff_step_simps =
  added_diff_step removed_diff_step changed_diff_step blacklist_ver_diff_step

lemma diff_inv_init: "diff_inv prev cur (diff_init cur)"
  by (simp add: diff_inv_def diff_init_def)

lemma diff_inv_step: "diff_inv prev cur st \<Longrightarrow> diff_inv prev cur (diff_step prev cur pkg st)"
  unfolding diff_inv_def diff_step_simps by (auto simp: skipped_def)

lemma diff_inv_fold: "diff_inv prev cur st \<Longrightarrow> diff_inv prev cur (fold (diff_step prev cur) pkgs st)"
  by (induction pkgs arbitrary: st) (simp_all add: diff_inv_step)

lemma diff_inv_loop: "diff_inv prev cur (diff_loop pkgs prev cur)"
  by (simp add: diff_loop_def diff_inv_fold diff_inv_init)

lemma fold_step_grows:
  "\<exists>as cs rs. added (fold (diff_step prev cur) pkgs st) = added st @ as \<and> subseq as pkgs \<and>
     changed (fold (diff_step prev cur) pkgs st) = changed st @ cs \<and> subseq cs pkgs \<and>
     removed (fold (diff_step prev cur) pkgs st) = removed st @ rs \<and> subseq rs pkgs"
proof (induction pkgs arbitrary: st)
  case Nil
  then show ?case by simp
next
  case (Cons pkg pkgs)
  from Cons[of "diff_step prev cur pkg st"] obtain as cs rs where
    *: "added (fold (diff_step prev cur) pkgs (diff_step prev cur pkg st)) = added (diff_step prev cur pkg st) @ as"
       "subseq as pkgs"
       "changed (fold (diff_step prev cur) pkgs (diff_step prev cur pkg st)) = changed (diff_step prev cur pkg st) @ cs"
       "subseq cs pkgs"
       "removed (fold (diff_step prev cur) pkgs (diff_step prev cur pkg st)) = removed (diff_step prev cur pkg st) @ rs"
       "subseq rs pkgs"
    by blast
  show ?case
    unfolding fold_simps *(1,3,5) diff_step_simps
    using *(2,4,6) by (auto intro: subseq_Cons')
qed

lemma diff_loop_subseq:
  "subseq (added (diff_loop pkgs prev cur)) pkgs \<and> subseq (changed (diff_loop pkgs prev cur)) pkgs \<and>
   subseq (removed (diff_loop pkgs prev cur)) pkgs"
  using fold_step_grows[of prev cur pkgs "diff_init cur"]
  by (auto simp: diff_loop_def diff_init_def)

lemma diff_loop_append:
  "diff_loop (xs @ p # ys) prev cur = fold (diff_step prev cur) ys (diff_step prev cur p (diff_loop xs prev cur))"
  by (simp add: diff_loop_def)

lemma diff_loop_classifies:
  assumes "pkgs = xs @ p # ys" "\<not> skipped prev cur (diff_loop xs prev cur) p"
  shows "(prev p = None \<longrightarrow> p \<in> set (added (diff_loop pkgs prev cur))) \<and>
     (prev p \<noteq> None \<and> cur p = None \<longrightarrow> p \<in> set (removed (diff_loop pkgs prev cur))) \<and>
     (prev p \<noteq> None \<and> cur p \<noteq> None \<and> prev p \<noteq> cur p \<longrightarrow> p \<in> set (changed (diff_loop pkgs prev cur)))"
proof -
  let ?s = "diff_step prev cur p (diff_loop xs prev cur)"
  from fold_step_grows[of prev cur ys ?s] obtain as cs rs where
    *: "added (diff_loop pkgs prev cur) = added ?s @ as"
       "changed (diff_loop pkgs prev cur) = changed ?s @ cs"
       "removed (diff_loop pkgs prev cur) = removed ?s @ rs"
    unfolding assms(1) diff_loop_append by blast
  show ?thesis unfolding * diff_step_simps using assms(2) by simp
qed


lemma format_added_Inr:
  "(\<forall>p \<in> set ps. cur p \<noteq> None) \<Longrightarrow> format_added cur ps out = Inr (out @ concat (added_rows cur ps))"
  by (induction ps arbitrary: out) (auto simp: added_rows_def)

lemma format_added_Inl:
  "\<not> (\<forall>p \<in> set ps. cur p \<noteq> None) \<Longrightarrow> \<exists>q \<in> set ps. cur q = None \<and> format_added cur ps out = Inl (KeyError q)"
  by (induction ps arbitrary: out) (auto split: option.splits)

lemma format_changed_Inr:
  "(\<forall>p \<in> set ps. prev p \<noteq> None \<and> cur p \<noteq> None) \<Longrightarrow>
   format_changed prev cur ps out = Inr (out @ concat (changed_rows prev cur ps))"
  by (induction ps arbitrary: out) (auto simp: changed_rows_def)

lemma format_removed_Inr:
  "(\<forall>p \<in> set ps. prev p \<noteq> None) \<Longrightarrow>
   format_removed prev ps out = Inr (out @ concat (removed_rows prev ps))"
  by (induction ps arbitrary: out) (auto simp: removed_rows_def)

lemma calculate_changes_ok:
  assumes "\<forall>p \<in> set (added (diff_loop pkgs prev cur)). cur p \<noteq> None"
  shows "calculate_changes pkgs prev cur =
      Inr (concat (added_rows cur (added (diff_loop pkgs prev cur))) @
           concat (changed_rows prev cur (changed (diff_loop pkgs prev cur))) @
           concat (removed_rows prev (removed (diff_loop pkgs prev cur))))"
proof -
  let ?S = "diff_loop pkgs prev cur"
  have inv: "diff_inv prev cur ?S" by (rule diff_inv_loop)
  have c: "\<forall>p \<in> set (changed ?S). prev p \<noteq> None \<and> cur p \<noteq> None"
    and r: "\<forall>p \<in> set (removed ?S). prev p \<noteq> None"
    using inv by (auto simp: diff_inv_def)
  show ?thesis
    unfolding calculate_changes_def Let_def format_added_Inr[OF assms] sum.case
      format_changed_Inr[OF c] format_removed_Inr[OF r] by simp
qed

lemma calculate_changes_err:
  assumes "\<not> (\<forall>p \<in> set (added (diff_loop pkgs prev cur)). cur p \<noteq> None)"
  shows "\<exists>q \<in> set (added (diff_loop pkgs prev cur)). cur q = None \<and>
           calculate_changes pkgs prev cur = Inl (KeyError q)"
proof -
  from format_added_Inl[OF assms, of "[]"] obtain q where
    q: "q \<in> set (added (diff_loop pkgs prev cur))" "cur q = None"
      "format_added cur (added (diff_loop pkgs prev cur)) [] = Inl (KeyError q)" by blast
  have "calculate_changes pkgs prev cur = Inl (KeyError q)"
    unfolding calculate_changes_def Let_def q(3) by simp
  with q show ?thesis by blast
qed

text \<open>A name absent from both maps and not an anchor is never skipped.\<close>

lemma absent_added:
  assumes "p \<in> set pkgs" "p \<notin> set BLACKLIST_VERSIONS" "prev p = None" "cur p = None"
  shows "p \<in> set (added (diff_loop pkgs prev cur))"
proof -
  from assms(1) obtain xs ys where "pkgs = xs @ p # ys" by (auto simp: in_set_conv_decomp)
  moreover have "\<not> skipped prev cur (diff_loop xs prev cur) p"
    using assms(2-4) by (simp add: skipped_def)
  ultimately show ?thesis using diff_loop_classifies assms(3) by blast
qed

lemma diff_loop_reported_subset:
  "set (added (diff_loop pkgs prev cur)) \<union> set (changed (diff_loop pkgs prev cur)) \<union>
   set (removed (diff_loop pkgs prev cur)) \<subseteq> set pkgs"
  using diff_loop_subseq[of pkgs prev cur] by (auto dest: list_emb_set)


text \<open>Unfolding the loop on concrete inputs.\<close>

lemmas diff_eval = diff_loop_def diff_init_def diff_step_def BLACKLIST_VERSIONS_def



text \<open>
  C3. In the scenario (\<open>prev\<close> with \<open>foo\<close> 1.0 and \<open>kernel\<close> 6.1; \<open>cur\<close> with \<open>foo\<close> 1.1, \<open>kernel\<close> 6.2
  and \<open>bar\<close> 2.0; universe \<open>foo\<close>, \<open>kernel\<close>, \<open>bar\<close>) the loop ends with added = [\<open>bar\<close>],
  changed = [\<open>foo\<close>], nothing removed; \<open>kernel\<close> is an anchor and is left out; the versions of
  \<open>foo\<close> and \<open>bar\<close> have been put into the suppressed set, and neither \<open>foo\<close> nor \<open>bar\<close> was skipped;
  the text has the row of \<open>bar\<close> and then the row of \<open>foo\<close>.
\<close>

theorem calculate_changes_scenario:
  "diff_loop [''foo'', ''kernel'', ''bar''] scenario_prev scenario_curr =
     \<lparr>added = [''bar''], changed = [''foo''], removed = [],
      blacklist_ver = {Some ''6.2'', None, Some ''1.1'', Some ''1.0'', Some ''2.0''}\<rparr> \<and>
   ''kernel'' \<in> set BLACKLIST_VERSIONS \<and>
   \<not> skipped scenario_prev scenario_curr (diff_loop [] scenario_prev scenario_curr) ''foo'' \<and>
   \<not> skipped scenario_prev scenario_curr (diff_loop [''foo'', ''kernel''] scenario_prev scenario_curr) ''bar'' \<and>
   calculate_changes [''foo'', ''kernel'', ''bar''] scenario_prev scenario_curr =
     Inr (PATTERN_ADD ''bar'' ''2.0'' @ PATTERN_CHANGE ''foo'' ''1.0'' ''1.1'')"
  by (auto simp add: calculate_changes_def diff_eval skipped_def scenario_prev_def scenario_curr_def)

text \<open>
  C4. A text returned by \<open>calculate_changes\<close> is the rows of the added names, then the rows of
  the changed names, then the rows of the removed names, each list in the order of the universe.
  When the lists are [\<open>a\<close>], [\<open>b\<close>] and [\<open>c\<close>], whatever the order of the universe, the text is
  the row of \<open>a\<close>, the row of \<open>b\<close>, the row of \<open>c\<close>.
\<close>

theorem calculate_changes_output_order:
  "(calculate_changes pkgs prev cur = Inr out \<longrightarrow>
      out = concat (added_rows cur (added (diff_loop pkgs prev cur))) @
            concat (changed_rows prev cur (changed (diff_loop pkgs prev cur))) @
            concat (removed_rows prev (removed (diff_loop pkgs prev cur))) \<and>
      subseq (added (diff_loop pkgs prev cur)) pkgs \<and>
      subseq (changed (diff_loop pkgs prev cur)) pkgs \<and>
      subseq (removed (diff_loop pkgs prev cur)) pkgs) \<and>
   (added (diff_loop pkgs prev cur) = [a] \<and> changed (diff_loop pkgs prev cur) = [b] \<and>
    removed (diff_loop pkgs prev cur) = [c] \<and> cur a = Some va \<longrightarrow>
      (\<exists>pb cb pc. prev b = Some pb \<and> cur b = Some cb \<and> prev c = Some pc \<and>
         calculate_changes pkgs prev cur =
           Inr (PATTERN_ADD a va @ PATTERN_CHANGE b pb cb @ PATTERN_REMOVE c pc)))"
proof -
  let ?S = "diff_loop pkgs prev cur"
  have 1: "calculate_changes pkgs prev cur = Inr out \<longrightarrow>
      out = concat (added_rows cur (added ?S)) @ concat (changed_rows prev cur (changed ?S)) @
            concat (removed_rows prev (removed ?S))"
  proof
    assume h: "calculate_changes pkgs prev cur = Inr out"
    show "out = concat (added_rows cur (added ?S)) @ concat (changed_rows prev cur (changed ?S)) @
            concat (removed_rows prev (removed ?S))"
    proof (cases "\<forall>p \<in> set (added ?S). cur p \<noteq> None")
      case True
      from calculate_changes_ok[OF True] h show ?thesis by simp
    next
      case False
      from calculate_changes_err[OF False] h show ?thesis by auto
    qed
  qed
  have 2: "added ?S = [a] \<and> changed ?S = [b] \<and> removed ?S = [c] \<and> cur a = Some va \<longrightarrow>
      (\<exists>pb cb pc. prev b = Some pb \<and> cur b = Some cb \<and> prev c = Some pc \<and>
         calculate_changes pkgs prev cur =
           Inr (PATTERN_ADD a va @ PATTERN_CHANGE b pb cb @ PATTERN_REMOVE c pc))"
  proof
    assume h: "added ?S = [a] \<and> changed ?S = [b] \<and> removed ?S = [c] \<and> cur a = Some va"
    have inv: "diff_inv prev cur ?S" by (rule diff_inv_loop)
    with h obtain pb cb pc where v: "prev b = Some pb" "cur b = Some cb" "prev c = Some pc"
      by (auto simp: diff_inv_def)
    from h have "\<forall>p \<in> set (added ?S). cur p \<noteq> None" by simp
    from calculate_changes_ok[OF this]
    have "calculate_changes pkgs prev cur =
           Inr (PATTERN_ADD a va @ PATTERN_CHANGE b pb cb @ PATTERN_REMOVE c pc)"
      using h v by (simp add: added_rows_def changed_rows_def removed_rows_def)
    with v show "\<exists>pb cb pc. prev b = Some pb \<and> cur b = Some cb \<and> prev c = Some pc \<and>
         calculate_changes pkgs prev cur =
           Inr (PATTERN_ADD a va @ PATTERN_CHANGE b pb cb @ PATTERN_REMOVE c pc)" by blast
  qed
  show ?thesis using 1 2 diff_loop_subseq[of pkgs prev cur] by blast
qed

theorem calculate_changes_output_order_witness:
  "calculate_changes [''ccc'', ''bbb'', ''aaa''] order_prev order_curr =
     Inr (PATTERN_ADD ''aaa'' ''1.0'' @ PATTERN_CHANGE ''bbb'' ''2.0'' ''2.1'' @ PATTERN_REMOVE ''ccc'' ''3.0'')"
proof -
  have s: "added (diff_loop [''ccc'', ''bbb'', ''aaa''] order_prev order_curr) = [''aaa''] \<and>
        changed (diff_loop [''ccc'', ''bbb'', ''aaa''] order_prev order_curr) = [''bbb''] \<and>
        removed (diff_loop [''ccc'', ''bbb'', ''aaa''] order_prev order_curr) = [''ccc''] \<and>
        order_curr ''aaa'' = Some ''1.0''"
    by (simp add: diff_eval order_prev_def order_curr_def)
  have v: "order_prev ''bbb'' = Some ''2.0''" "order_curr ''bbb'' = Some ''2.1''" "order_prev ''ccc'' = Some ''3.0''"
    by (simp_all add: order_prev_def order_curr_def)
  from calculate_changes_output_order[of "[''ccc'', ''bbb'', ''aaa'']" order_prev order_curr _ "''aaa''" "''bbb''" "''ccc''" "''1.0''"] s
  obtain pb cb pc where "order_prev ''bbb'' = Some pb" "order_curr ''bbb'' = Some cb" "order_prev ''ccc'' = Some pc"
    "calculate_changes [''ccc'', ''bbb'', ''aaa''] order_prev order_curr =
           Inr (PATTERN_ADD ''aaa'' ''1.0'' @ PATTERN_CHANGE ''bbb'' pb cb @ PATTERN_REMOVE ''ccc'' pc)"
    by blast
  with v show ?thesis by simp
qed

text \<open>
  C8. \<open>calculate_changes\<close> returns a text exactly when every name of the universe that is not
  an anchor is in \<open>prev\<close> or in \<open>cur\<close>. A name of the universe that is in neither and is not an
  anchor is classified as added, and the call ends in the \<open>KeyError\<close> of such a name, raised by
  \<open>cur[pkg]\<close> while the rows are built.
\<close>

theorem calculate_changes_partial:
  "((\<exists>out. calculate_changes pkgs prev cur = Inr out) \<longleftrightarrow>
      (\<forall>p \<in> set pkgs. p \<in> set BLACKLIST_VERSIONS \<or> prev p \<noteq> None \<or> cur p \<noteq> None)) \<and>
   (\<forall>p \<in> set pkgs. p \<notin> set BLACKLIST_VERSIONS \<and> prev p = None \<and> cur p = None \<longrightarrow>
      p \<in> set (added (diff_loop pkgs prev cur)) \<and>
      (\<exists>q \<in> set pkgs. q \<notin> set BLACKLIST_VERSIONS \<and> prev q = None \<and> cur q = None \<and>
         calculate_changes pkgs prev cur = Inl (KeyError q)))"
proof -
  let ?S = "diff_loop pkgs prev cur"
  have inv: "diff_inv prev cur ?S" by (rule diff_inv_loop)
  have sub: "set (added ?S) \<subseteq> set pkgs" using diff_loop_reported_subset[of pkgs prev cur] by blast
  have bad: "\<exists>q \<in> set pkgs. q \<notin> set BLACKLIST_VERSIONS \<and> prev q = None \<and> cur q = None \<and>
         calculate_changes pkgs prev cur = Inl (KeyError q)"
    if "\<not> (\<forall>p \<in> set (added ?S). cur p \<noteq> None)"
  proof -
    from calculate_changes_err[OF that] obtain q where
      q: "q \<in> set (added ?S)" "cur q = None" "calculate_changes pkgs prev cur = Inl (KeyError q)"
      by blast
    from q(1) inv have "prev q = None" "q \<notin> set BLACKLIST_VERSIONS" by (auto simp: diff_inv_def)
    then show ?thesis using q sub by blast
  qed
  have A: "(\<exists>out. calculate_changes pkgs prev cur = Inr out) \<longleftrightarrow>
      (\<forall>p \<in> set pkgs. p \<in> set BLACKLIST_VERSIONS \<or> prev p \<noteq> None \<or> cur p \<noteq> None)"
  proof
    assume "\<exists>out. calculate_changes pkgs prev cur = Inr out"
    then have all: "\<forall>p \<in> set (added ?S). cur p \<noteq> None" using bad by fastforce
    show "\<forall>p \<in> set pkgs. p \<in> set BLACKLIST_VERSIONS \<or> prev p \<noteq> None \<or> cur p \<noteq> None"
      using absent_added all by blast
  next
    assume h: "\<forall>p \<in> set pkgs. p \<in> set BLACKLIST_VERSIONS \<or> prev p \<noteq> None \<or> cur p \<noteq> None"
    have "\<forall>p \<in> set (added ?S). cur p \<noteq> None"
    proof
      fix p assume p: "p \<in> set (added ?S)"
      with inv have "prev p = None" "p \<notin> set BLACKLIST_VERSIONS" by (auto simp: diff_inv_def)
      with h p sub show "cur p \<noteq> None" by blast
    qed
    from calculate_changes_ok[OF this] show "\<exists>out. calculate_changes pkgs prev cur = Inr out"
      by blast
  qed
  have B: "\<forall>p \<in> set pkgs. p \<notin> set BLACKLIST_VERSIONS \<and> prev p = None \<and> cur p = None \<longrightarrow>
      p \<in> set (added ?S) \<and>
      (\<exists>q \<in> set pkgs. q \<notin> set BLACKLIST_VERSIONS \<and> prev q = None \<and> cur q = None \<and>
         calculate_changes pkgs prev cur = Inl (KeyError q))"
  proof (intro ballI impI)
    fix p assume p: "p \<in> set pkgs" "p \<notin> set BLACKLIST_VERSIONS \<and> prev p = None \<and> cur p = None"
    then have m: "p \<in> set (added ?S)" using absent_added by blast
    with p have "\<not> (\<forall>p \<in> set (added ?S). cur p \<noteq> None)" by blast
    from bad[OF this] m show "p \<in> set (added ?S) \<and>
      (\<exists>q \<in> set pkgs. q \<notin> set BLACKLIST_VERSIONS \<and> prev q = None \<and> cur q = None \<and>
         calculate_changes pkgs prev cur = Inl (KeyError q))" by blast
  qed
  show ?thesis using A B by blast
qed

theorem calculate_changes_partial_witness:
  "calculate_changes [''foo'', ''ghost'', ''bar''] scenario_prev scenario_curr = Inl (KeyError ''ghost'') \<and>
   ''ghost'' \<in> set (added (diff_loop [''foo'', ''ghost'', ''bar''] scenario_prev scenario_curr)) \<and>
   (\<exists>out. calculate_changes [''foo'', ''bar''] scenario_prev scenario_curr = Inr out)"
proof -
  have g: "''ghost'' \<in> set [''foo'', ''ghost'', ''bar'']"
    "''ghost'' \<notin> set BLACKLIST_VERSIONS \<and> scenario_prev ''ghost'' = None \<and> scenario_curr ''ghost'' = None"
    by (simp_all add: BLACKLIST_VERSIONS_def scenario_prev_def scenario_curr_def)
  have only: "\<And>q. q \<in> set [''foo'', ''ghost'', ''bar''] \<Longrightarrow> scenario_curr q = None \<Longrightarrow> q = ''ghost''"
    by (auto simp: scenario_curr_def)
  from calculate_changes_partial[of "[''foo'', ''ghost'', ''bar'']" scenario_prev scenario_curr] g
  obtain q where "''ghost'' \<in> set (added (diff_loop [''foo'', ''ghost'', ''bar''] scenario_prev scenario_curr))"
    "q \<in> set [''foo'', ''ghost'', ''bar'']" "scenario_curr q = None"
    "calculate_changes [''foo'', ''ghost'', ''bar''] scenario_prev scenario_curr = Inl (KeyError q)"
    by blast
  moreover from this only have "q = ''ghost''" by blast
  moreover have "\<forall>p \<in> set [''foo'', ''bar'']. p \<in> set BLACKLIST_VERSIONS \<or> scenario_prev p \<noteq> None \<or> scenario_curr p \<noteq> None"
    by (simp add: scenario_prev_def scenario_curr_def)
  with calculate_changes_partial[of "[''foo'', ''bar'']" scenario_prev scenario_curr]
  have "\<exists>out. calculate_changes [''foo'', ''bar''] scenario_prev scenario_curr = Inr out" by blast
  ultimately show ?thesis by blast
qed


section \<open>Properties of the group reconciler and of the normalizer\<close>

lemma present_simps:
  "present pkg [] = []"
  "present pkg ((img, base, de) # rest) =
     (case pkg img of None \<Rightarrow> present pkg rest | Some ps \<Rightarrow> ps # present pkg rest)"
  by (simp_all add: present_def map_filter_simps split: option.splits)

lemma matching_simps:
  "matching pkg t [] = []"
  "matching pkg t ((img, base, de) # rest) =
     (if group_skips t base de then matching pkg t rest
      else case pkg img of None \<Rightarrow> matching pkg t rest | Some ps \<Rightarrow> ps # matching pkg t rest)"
  by (simp_all add: matching_def map_filter_simps split: option.splits)

lemma set_common_loop_later:
  "set (common_loop pkg images False common) =
     {p \<in> set common. \<forall>ps \<in> set (present pkg images). p \<in> set ps}"
  by (induction images arbitrary: common) (auto simp: present_simps split: option.splits)

lemma set_common_loop_first:
  "set (common_loop pkg images True []) =
     {p. present pkg images \<noteq> [] \<and> (\<forall>ps \<in> set (present pkg images). p \<in> set ps)}"
  by (induction images) (auto simp: present_simps set_common_loop_later split: option.splits)

lemma set_other_loop_later:
  "set (other_loop pkg common t images False other) =
     {p \<in> set other. \<forall>ps \<in> set (matching pkg t images). p \<in> set ps}"
  by (induction images arbitrary: other) (auto simp: matching_simps split: option.splits if_splits)

lemma set_other_loop_first:
  "set (other_loop pkg common t images True []) =
     {p. matching pkg t images \<noteq> [] \<and> p \<notin> set common \<and>
         (\<forall>ps \<in> set (matching pkg t images). p \<in> set ps)}"
  by (induction images) (auto simp: matching_simps set_other_loop_later split: option.splits if_splits)

lemma matching_subset_present: "set (matching pkg t images) \<subseteq> set (present pkg images)"
  by (induction images) (auto simp: matching_simps present_simps split: option.splits if_splits)

lemma present_universe:
  "ps \<in> set (present pkg images) \<Longrightarrow> \<exists>img \<in> fst ` set images. pkg img = Some ps"
  by (induction images) (auto simp: present_simps split: option.splits)

lemma pkg_universe_variant:
  "pkg_universe (get_packages ms) (get_packages prev) img =
     (if variant_present prev ms img
      then Some (package_names (get_packages ms) img @ package_names (get_packages prev) img)
      else None)"
  by (simp add: pkg_universe_def variant_present_def)

lemma present_variants:
  "set ` set (present (pkg_universe (get_packages ms) (get_packages prev)) (map classify_image imgs)) =
     variant_universe prev ms ` {img \<in> set imgs. variant_present prev ms img}"
  by (induction imgs)
     (auto simp: present_simps classify_image_def pkg_universe_variant variant_universe_def)

lemma present_nonempty:
  "present (pkg_universe (get_packages ms) (get_packages prev)) (map classify_image imgs) \<noteq> [] \<longleftrightarrow>
     (\<exists>img \<in> set imgs. variant_present prev ms img)"
  by (induction imgs) (auto simp: present_simps classify_image_def pkg_universe_variant)

lemma fst_package_groups:
  "fst (package_groups images prev ms) =
     sort (remdups (common_loop (pkg_universe (get_packages ms) (get_packages prev)) images True []))"
  by (simp add: package_groups_def Let_def)

lemma snd_package_groups:
  "snd (package_groups images prev ms) =
     map (\<lambda>t. (t, sort (remdups (other_loop (pkg_universe (get_packages ms) (get_packages prev))
        (common_loop (pkg_universe (get_packages ms) (get_packages prev)) images True []) t images True []))))
       (map fst OTHER_NAMES)"
  by (simp add: package_groups_def Let_def comp_def)

lemma set_common:
  "set (fst (package_groups (map classify_image imgs) prev ms)) =
     {p. (\<exists>img \<in> set imgs. variant_present prev ms img) \<and>
         (\<forall>img \<in> set imgs. variant_present prev ms img \<longrightarrow> p \<in> variant_universe prev ms img)}"
proof -
  let ?pkg = "pkg_universe (get_packages ms) (get_packages prev)"
  let ?P = "present ?pkg (map classify_image imgs)"
  note ne = present_nonempty[of ms prev imgs]
  have all: "(\<forall>ps \<in> set ?P. p \<in> set ps) \<longleftrightarrow>
     (\<forall>img \<in> set imgs. variant_present prev ms img \<longrightarrow> p \<in> variant_universe prev ms img)" for p
  proof -
    have "(\<forall>ps \<in> set ?P. p \<in> set ps) \<longleftrightarrow> (\<forall>S \<in> set ` set ?P. p \<in> S)" by blast
    also have "\<dots> \<longleftrightarrow> (\<forall>img \<in> set imgs. variant_present prev ms img \<longrightarrow> p \<in> variant_universe prev ms img)"
      unfolding present_variants by blast
    finally show ?thesis .
  qed
  show ?thesis unfolding fst_package_groups by (simp add: set_common_loop_first ne all)
qed

lemma other_loop_disjoint_common:
  "set (other_loop pkg common t images True []) \<inter> set common = {}"
  by (auto simp: set_other_loop_first)

lemma other_loop_subset_matching:
  "p \<in> set (other_loop pkg common t images True []) \<Longrightarrow>
   \<exists>ps \<in> set (present pkg images). p \<in> set ps"
  using matching_subset_present[of pkg t images]
  by (cases "matching pkg t images") (auto simp: set_other_loop_first)

lemma common_loop_subset_present:
  "p \<in> set (common_loop pkg images True []) \<Longrightarrow> \<exists>ps \<in> set (present pkg images). p \<in> set ps"
  by (cases "present pkg images") (auto simp: set_common_loop_first)

lemma present_variant_universe:
  "ps \<in> set (present (pkg_universe (get_packages ms) (get_packages prev)) images) \<Longrightarrow>
   \<exists>img. variant_present prev ms img \<and> set ps = variant_universe prev ms img"
proof (induction images)
  case Nil
  then show ?case by (simp add: present_simps)
next
  case (Cons a images)
  obtain i b d where a: "a = (i, b, d)" by (cases a)
  show ?case
  proof (cases "variant_present prev ms i")
    case True
    with Cons a show ?thesis
      by (auto simp: present_simps pkg_universe_variant variant_universe_def)
  next
    case False
    with Cons a show ?thesis by (simp add: present_simps pkg_universe_variant)
  qed
qed

text \<open>The base of an image never contains the name of the graphics vendor.\<close>

lemma classify_image_base:
  "classify_image img = (img', base, de) \<Longrightarrow> base = ''deck'' \<or> base = ''desktop''"
  by (auto simp: classify_image_def split: if_splits)

lemma group_skips_nvidia: "classify_image img = (img', base, de) \<Longrightarrow> group_skips ''nvidia'' base de"
  by (auto simp: classify_image_def group_skips_def split: if_splits)

lemma matching_nvidia: "matching pkg ''nvidia'' (map classify_image imgs) = []"
proof (induction imgs)
  case Nil
  then show ?case by (simp add: matching_simps)
next
  case (Cons img imgs)
  obtain i b d where c: "classify_image img = (i, b, d)" by (cases "classify_image img")
  with Cons group_skips_nvidia[OF c] show ?case by (simp add: matching_simps)
qed

lemma other_loop_nvidia: "other_loop pkg common ''nvidia'' (map classify_image imgs) True [] = []"
  using set_other_loop_first[of pkg common "''nvidia''" "map classify_image imgs"]
  by (simp add: matching_nvidia)

lemma matching_get_images:
  "matching pkg ''desktop'' get_images = present pkg get_images"
  "matching pkg ''kde'' get_images = present pkg get_images"
  "matching pkg ''deck'' get_images = []"
  by (simp_all add: get_images_def IMAGES_def classify_image_def matching_simps present_simps
      group_skips_def split: option.splits)

lemma other_loop_get_images_empty:
  assumes "t \<in> set (map fst OTHER_NAMES)"
  shows "other_loop pkg (common_loop pkg get_images True []) t get_images True [] = []"
proof -
  from assms consider "t = ''desktop''" | "t = ''deck''" | "t = ''kde''" | "t = ''nvidia''"
    by (auto simp: OTHER_NAMES_def)
  then have "set (other_loop pkg (common_loop pkg get_images True []) t get_images True []) = {}"
  proof cases
    case 1
    then show ?thesis by (auto simp: set_other_loop_first set_common_loop_first matching_get_images)
  next
    case 2
    then show ?thesis by (simp add: set_other_loop_first matching_get_images)
  next
    case 3
    then show ?thesis by (auto simp: set_other_loop_first set_common_loop_first matching_get_images)
  next
    case 4
    then show ?thesis using matching_nvidia[of pkg IMAGES]
      by (simp add: set_other_loop_first get_images_def)
  qed
  then show ?thesis by simp
qed

lemma snd_get_package_groups:
  "snd (get_package_groups prev ms) =
     [(''desktop'', []), (''deck'', []), (''kde'', []), (''nvidia'', [])]"
proof -
  have "snd (get_package_groups prev ms) = map (\<lambda>t. (t, [])) (map fst OTHER_NAMES)"
    unfolding get_package_groups_def snd_package_groups
    by (rule map_cong[OF refl]) (simp add: other_loop_get_images_empty)
  then show ?thesis by (simp add: OTHER_NAMES_def)
qed

lemma fst_package_groups_subset:
  "set (fst (package_groups images prev ms)) \<subseteq> (\<Union>img. variant_universe prev ms img)"
proof
  fix p assume "p \<in> set (fst (package_groups images prev ms))"
  then have "p \<in> set (common_loop (pkg_universe (get_packages ms) (get_packages prev)) images True [])"
    by (simp add: fst_package_groups)
  from common_loop_subset_present[OF this] obtain ps where
    ps: "ps \<in> set (present (pkg_universe (get_packages ms) (get_packages prev)) images)" "p \<in> set ps"
    by blast
  from present_variant_universe[OF ps(1)] obtain img where "set ps = variant_universe prev ms img"
    by blast
  with ps(2) show "p \<in> (\<Union>img. variant_universe prev ms img)" by auto
qed

lemma sorted_fst_package_groups:
  "sorted (fst (package_groups images prev ms)) \<and> distinct (fst (package_groups images prev ms))"
  by (simp add: fst_package_groups)

text \<open>
  C5. For all previous and current manifests, with (common, groups) the result of
  \<open>get_package_groups\<close>: every group list is disjoint from the common list; two groups of
  different keys are disjoint; the common list and the group lists hold only names of the union
  of the variants' universes, the universe of a variant being its previous and current package
  names; the common list and every group list are sorted and without duplicates; the groups are
  those of the keys of \<open>OTHER_NAMES\<close>; and the common list is the intersection of the universes
  of the variants of \<open>IMAGES\<close> that are present (empty when none is).
\<close>

theorem get_package_groups_disjoint:
  "(\<forall>(k, g) \<in> set (snd (get_package_groups prev ms)).
      set g \<inter> set (fst (get_package_groups prev ms)) = {}) \<and>
   (\<forall>(k, g) \<in> set (snd (get_package_groups prev ms)).
      \<forall>(k', g') \<in> set (snd (get_package_groups prev ms)). k \<noteq> k' \<longrightarrow> set g \<inter> set g' = {}) \<and>
   set (fst (get_package_groups prev ms)) \<union> (\<Union>(k, g) \<in> set (snd (get_package_groups prev ms)). set g)
     \<subseteq> (\<Union>img. variant_universe prev ms img) \<and>
   sorted (fst (get_package_groups prev ms)) \<and> distinct (fst (get_package_groups prev ms)) \<and>
   (\<forall>(k, g) \<in> set (snd (get_package_groups prev ms)). sorted g \<and> distinct g) \<and>
   map fst (snd (get_package_groups prev ms)) = [''desktop'', ''deck'', ''kde'', ''nvidia''] \<and>
   set (fst (get_package_groups prev ms)) =
     {p. (\<exists>img \<in> set IMAGES. variant_present prev ms img) \<and>
         (\<forall>img \<in> set IMAGES. variant_present prev ms img \<longrightarrow> p \<in> variant_universe prev ms img)}"
proof -
  note s = snd_get_package_groups[of prev ms]
  have 1: "\<forall>(k, g) \<in> set (snd (get_package_groups prev ms)).
      set g \<inter> set (fst (get_package_groups prev ms)) = {}"
    unfolding s by simp
  have 2: "\<forall>(k, g) \<in> set (snd (get_package_groups prev ms)).
      \<forall>(k', g') \<in> set (snd (get_package_groups prev ms)). k \<noteq> k' \<longrightarrow> set g \<inter> set g' = {}"
    unfolding s by simp
  have 3: "set (fst (get_package_groups prev ms)) \<union> (\<Union>(k, g) \<in> set (snd (get_package_groups prev ms)). set g)
     \<subseteq> (\<Union>img. variant_universe prev ms img)"
    unfolding s using fst_package_groups_subset[of get_images prev ms]
    by (simp add: get_package_groups_def)
  have 4: "sorted (fst (get_package_groups prev ms))" "distinct (fst (get_package_groups prev ms))"
    using sorted_fst_package_groups[of get_images prev ms] by (simp_all add: get_package_groups_def)
  have 5: "\<forall>(k, g) \<in> set (snd (get_package_groups prev ms)). sorted g \<and> distinct g"
    unfolding s by simp
  have 6: "map fst (snd (get_package_groups prev ms)) = [''desktop'', ''deck'', ''kde'', ''nvidia'']"
    unfolding s by simp
  have 7: "set (fst (get_package_groups prev ms)) =
     {p. (\<exists>img \<in> set IMAGES. variant_present prev ms img) \<and>
         (\<forall>img \<in> set IMAGES. variant_present prev ms img \<longrightarrow> p \<in> variant_universe prev ms img)}"
    unfolding get_package_groups_def get_images_def by (rule set_common)
  show ?thesis
    by (rule conjI[OF 1 conjI[OF 2 conjI[OF 3 conjI[OF 4(1) conjI[OF 4(2) conjI[OF 5 conjI[OF 6 7]]]]]]])
qed

lemmas groups_eval = get_package_groups_def package_groups_def get_images_def IMAGES_def
  classify_image_def get_packages_def pkg_universe_def package_names_def
  group_skips_def OTHER_NAMES_def manifest_of_def Let_def

lemma get_package_groups_variants: "get_package_groups variants_prev variants_curr =
   ([''x''], [(''desktop'', []), (''deck'', []), (''kde'', []), (''nvidia'', [])])"
  by (simp add: groups_eval variants_prev_def variants_curr_def)

theorem get_package_groups_disjoint_witness:
  "sorted (fst (get_package_groups variants_prev variants_curr)) \<and>
   get_package_groups variants_prev variants_curr =
     ([''x''], [(''desktop'', []), (''deck'', []), (''kde'', []), (''nvidia'', [])])"
  by (rule conjI[OF get_package_groups_disjoint[of variants_prev variants_curr,
          THEN conjunct2, THEN conjunct2, THEN conjunct2, THEN conjunct1]
        get_package_groups_variants])

text \<open>
  C9. For all previous and current manifests the group \<open>nvidia\<close> of \<open>get_package_groups\<close> is
  empty, and it is so for every list of image names in place of \<open>IMAGES\<close>: the base that
  \<open>get_images\<close> gives an image is \<open>deck\<close> or \<open>desktop\<close>, the test of the group looks for
  \<open>nvidia\<close> in that base and so passes over every image. For an empty group
  \<open>calculate_changes\<close> returns the empty text, for which the section is left out: the loop over
  the groups adds nothing to the changes.
\<close>

theorem get_package_groups_nvidia_empty:
  "map_of (snd (get_package_groups prev ms)) ''nvidia'' = Some [] \<and>
   map_of (snd (package_groups (map classify_image imgs) prev ms)) ''nvidia'' = Some [] \<and>
   (fst (snd (classify_image img)) = ''deck'' \<or> fst (snd (classify_image img)) = ''desktop'') \<and>
   group_skips ''nvidia'' (fst (snd (classify_image img))) (snd (snd (classify_image img))) \<and>
   calculate_changes [] pv cv = Inr [] \<and>
   others_sections (snd (get_package_groups prev ms)) pv cv changes = Inr changes"
proof -
  have 1: "map_of (snd (package_groups (map classify_image imgs) prev ms)) ''nvidia'' = Some []" for imgs
    by (simp add: snd_package_groups other_loop_nvidia OTHER_NAMES_def)
  have 2: "map_of (snd (get_package_groups prev ms)) ''nvidia'' = Some []"
    unfolding get_package_groups_def get_images_def by (rule 1)
  obtain i b d where c: "classify_image img = (i, b, d)" by (cases "classify_image img")
  have 3: "fst (snd (classify_image img)) = ''deck'' \<or> fst (snd (classify_image img)) = ''desktop''"
    using classify_image_base[OF c] by (simp add: c)
  have 4: "group_skips ''nvidia'' (fst (snd (classify_image img))) (snd (snd (classify_image img)))"
    using group_skips_nvidia[OF c] by (simp add: c)
  have 5: "calculate_changes [] pv cv = Inr []"
    by (simp add: calculate_changes_def diff_loop_def diff_init_def)
  have 6: "others_sections (snd (get_package_groups prev ms)) pv cv changes = Inr changes"
    by (simp add: snd_get_package_groups 5)
  show ?thesis by (rule conjI[OF 2 conjI[OF 1 conjI[OF 3 conjI[OF 4 conjI[OF 5 6]]]]])
qed

lemma map_of_dict_set: "map_of (dict_set k v d) = (map_of d)(k \<mapsto> v)"
  by (induction d) (auto simp: fun_eq_iff)

lemma fold_dict_set_Some:
  "map_of (fold (\<lambda>(pkg, v) vs. dict_set pkg (f v) vs) items d) pkg = Some v \<Longrightarrow>
   map_of d pkg = Some v \<or> (\<exists>raw. (pkg, raw) \<in> set items \<and> v = f raw)"
proof (induction items arbitrary: d)
  case Nil
  then show ?case by simp
next
  case (Cons a items)
  obtain k r where a: "a = (k, r)" by (cases a)
  from Cons.prems have "map_of (fold (\<lambda>(pkg, v) vs. dict_set pkg (f v) vs) items (dict_set k (f r) d)) pkg = Some v"
    by (simp add: a)
  from Cons.IH[OF this] show ?case
    by (auto simp: a map_of_dict_set split: if_splits)
qed

lemma fold_dict_set_dom:
  "map_of d pkg \<noteq> None \<or> pkg \<in> fst ` set items \<Longrightarrow>
   map_of (fold (\<lambda>(pkg, v) vs. dict_set pkg (f v) vs) items d) pkg \<noteq> None"
proof (induction items arbitrary: d)
  case Nil
  then show ?case by simp
next
  case (Cons a items)
  obtain k r where a: "a = (k, r)" by (cases a)
  have "map_of (dict_set k (f r) d) pkg \<noteq> None \<or> pkg \<in> fst ` set items"
    using Cons.prems by (auto simp: a map_of_dict_set)
  from Cons.IH[OF this] show ?case by (simp add: a)
qed

lemma fold_images_Some:
  "map_of (fold (\<lambda>(img, img_pkgs) versions.
             fold (\<lambda>(pkg, v) vs. dict_set pkg (f v) vs) img_pkgs versions) pks d) pkg = Some v \<Longrightarrow>
   map_of d pkg = Some v \<or> (\<exists>img pk raw. (img, pk) \<in> set pks \<and> (pkg, raw) \<in> set pk \<and> v = f raw)"
proof (induction pks arbitrary: d)
  case Nil
  then show ?case by simp
next
  case (Cons a pks)
  obtain i ps where a: "a = (i, ps)" by (cases a)
  from Cons.prems have "map_of (fold (\<lambda>(img, img_pkgs) versions.
             fold (\<lambda>(pkg, v) vs. dict_set pkg (f v) vs) img_pkgs versions) pks
               (fold (\<lambda>(pkg, v) vs. dict_set pkg (f v) vs) ps d)) pkg = Some v"
    by (simp add: a)
  from Cons.IH[OF this] show ?case
  proof
    assume "map_of (fold (\<lambda>(pkg, v) vs. dict_set pkg (f v) vs) ps d) pkg = Some v"
    from fold_dict_set_Some[OF this] show ?thesis by (auto simp: a)
  next
    assume "\<exists>img pk raw. (img, pk) \<in> set pks \<and> (pkg, raw) \<in> set pk \<and> v = f raw"
    then show ?thesis by auto
  qed
qed

lemma fold_images_dom:
  "map_of d pkg \<noteq> None \<or> (\<exists>img pk. (img, pk) \<in> set pks \<and> pkg \<in> fst ` set pk) \<Longrightarrow>
   map_of (fold (\<lambda>(img, img_pkgs) versions.
             fold (\<lambda>(pkg, v) vs. dict_set pkg (f v) vs) img_pkgs versions) pks d) pkg \<noteq> None"
proof (induction pks arbitrary: d)
  case Nil
  then show ?case by simp
next
  case (Cons a pks)
  obtain i ps where a: "a = (i, ps)" by (cases a)
  from Cons.prems consider "map_of d pkg \<noteq> None \<or> pkg \<in> fst ` set ps"
    | "\<exists>img pk. (img, pk) \<in> set pks \<and> pkg \<in> fst ` set pk"
    by (auto simp: a)
  then have "map_of (fold (\<lambda>(pkg, v) vs. dict_set pkg (f v) vs) ps d) pkg \<noteq> None \<or>
        (\<exists>img pk. (img, pk) \<in> set pks \<and> pkg \<in> fst ` set pk)"
  proof cases
    case 1
    from fold_dict_set_dom[OF this] show ?thesis ..
  next
    case 2
    then show ?thesis ..
  qed
  from Cons.IH[OF this] show ?case by (simp add: a)
qed

lemma get_versions_normalized:
  "map_of (get_versions ms) pkg = Some v \<Longrightarrow>
   \<exists>img pk raw. (img, pk) \<in> set (get_packages ms) \<and> (pkg, raw) \<in> set pk \<and> v = FEDORA_PATTERN_sub raw"
  unfolding get_versions_def using fold_images_Some[of FEDORA_PATTERN_sub "get_packages ms" "[]" pkg v]
  by simp

lemma get_versions_dom:
  "(img, pk) \<in> set (get_packages ms) \<Longrightarrow> (pkg, raw) \<in> set pk \<Longrightarrow> map_of (get_versions ms) pkg \<noteq> None"
  unfolding get_versions_def
  by (rule fold_images_dom) force

text \<open>Other version strings leave the names as they are.\<close>

lemma get_packages_map_versions:
  "get_packages (map (apsnd (map_versions f)) ms) =
     map (apsnd (map (\<lambda>(name, v). (name, f name v)))) (get_packages ms)"
  by (induction ms) (auto simp: get_packages_def map_versions_def split: option.splits)

lemma package_names_map_versions:
  "package_names (map (apsnd (map (\<lambda>(name, v). (name, f name v)))) d) k = package_names d k"
proof (induction d)
  case Nil
  then show ?case by (simp add: package_names_def)
next
  case (Cons a d)
  obtain i ps where a: "a = (i, ps)" by (cases a)
  have "map fst (map (\<lambda>(name, v). (name, f name v)) ps) = map fst ps" by (induction ps) auto
  with Cons show ?case by (simp add: package_names_def a)
qed

lemma pkg_universe_map_versions:
  "pkg_universe (get_packages (map (apsnd (map_versions g)) ms)) (get_packages (map (apsnd (map_versions f)) prev)) =
   pkg_universe (get_packages ms) (get_packages prev)"
  by (rule ext) (simp add: pkg_universe_def get_packages_map_versions package_names_map_versions comp_def)

lemma package_groups_map_versions:
  "package_groups images (map (apsnd (map_versions f)) prev) (map (apsnd (map_versions g)) ms) =
   package_groups images prev ms"
  by (simp only: package_groups_def Let_def pkg_universe_map_versions)

text \<open>
  C6. \<open>get_versions\<close> gives every package the normalized form (\<open>.fcNN\<close> removed) of a version
  string of that package in some image, and has an entry for every package of every image.
  \<open>get_package_groups\<close> reads the package dictionaries as they are in the labels: its result is
  the same whatever the version strings are, normalized or not, and a name is in the common list
  exactly when it is, as the string it is in the label, among the previous or current package
  names of every present variant.
\<close>

theorem normalizer_only_in_versions:
  "(\<forall>pkg v. map_of (get_versions ms) pkg = Some v \<longrightarrow>
      (\<exists>img pk raw. (img, pk) \<in> set (get_packages ms) \<and> (pkg, raw) \<in> set pk \<and>
         v = FEDORA_PATTERN_sub raw)) \<and>
   (\<forall>img pk pkg raw. (img, pk) \<in> set (get_packages ms) \<and> (pkg, raw) \<in> set pk \<longrightarrow>
      map_of (get_versions ms) pkg \<noteq> None) \<and>
   get_package_groups (map (apsnd (map_versions f)) prev) (map (apsnd (map_versions g)) ms) =
     get_package_groups prev ms \<and>
   set (fst (get_package_groups prev ms)) =
     {p. (\<exists>img \<in> set IMAGES. variant_present prev ms img) \<and>
         (\<forall>img \<in> set IMAGES. variant_present prev ms img \<longrightarrow>
            p \<in> set (package_names (get_packages ms) img) \<union>
                set (package_names (get_packages prev) img))}"
proof -
  have 1: "\<forall>pkg v. map_of (get_versions ms) pkg = Some v \<longrightarrow>
      (\<exists>img pk raw. (img, pk) \<in> set (get_packages ms) \<and> (pkg, raw) \<in> set pk \<and>
         v = FEDORA_PATTERN_sub raw)"
    using get_versions_normalized by blast
  have 2: "\<forall>img pk pkg raw. (img, pk) \<in> set (get_packages ms) \<and> (pkg, raw) \<in> set pk \<longrightarrow>
      map_of (get_versions ms) pkg \<noteq> None"
    using get_versions_dom by blast
  have 3: "get_package_groups (map (apsnd (map_versions f)) prev) (map (apsnd (map_versions g)) ms) =
     get_package_groups prev ms"
    unfolding get_package_groups_def by (rule package_groups_map_versions)
  have 4: "set (fst (get_package_groups prev ms)) =
     {p. (\<exists>img \<in> set IMAGES. variant_present prev ms img) \<and>
         (\<forall>img \<in> set IMAGES. variant_present prev ms img \<longrightarrow>
            p \<in> set (package_names (get_packages ms) img) \<union>
                set (package_names (get_packages prev) img))}"
    unfolding get_package_groups_def get_images_def set_common variant_universe_def ..
  show ?thesis by (rule conjI[OF 1 conjI[OF 2 conjI[OF 3 4]]])
qed

lemma get_versions_variants_curr: "get_versions variants_curr = [(''x'', ''1.0-3''), (''z'', ''3.0-1'')]"
  by (simp add: get_versions_def get_packages_def variants_curr_def manifest_of_def is_digit_def)

lemma get_package_groups_suffixed: "get_package_groups [] suffixed_curr =
      ([], [(''desktop'', []), (''deck'', []), (''kde'', []), (''nvidia'', [])])"
  by (simp add: groups_eval suffixed_curr_def)

lemma FEDORA_PATTERN_sub_lib: "FEDORA_PATTERN_sub ''lib.fc41'' = ''lib''"
  by (simp add: is_digit_def)

theorem normalizer_only_in_versions_witness:
  "map_of (get_versions variants_curr) ''x'' = Some ''1.0-3'' \<and>
   (\<exists>img pk raw. (img, pk) \<in> set (get_packages variants_curr) \<and> (''x'', raw) \<in> set pk \<and>
      ''1.0-3'' = FEDORA_PATTERN_sub raw) \<and>
   FEDORA_PATTERN_sub ''lib.fc41'' = ''lib'' \<and>
   get_package_groups [] suffixed_curr =
     ([], [(''desktop'', []), (''deck'', []), (''kde'', []), (''nvidia'', [])])"
proof -
  have v: "map_of (get_versions variants_curr) ''x'' = Some ''1.0-3''"
    by (simp add: get_versions_variants_curr)
  from normalizer_only_in_versions[of variants_curr, THEN conjunct1, rule_format, OF v]
  have "\<exists>img pk raw. (img, pk) \<in> set (get_packages variants_curr) \<and> (''x'', raw) \<in> set pk \<and>
      ''1.0-3'' = FEDORA_PATTERN_sub raw" .
  with v FEDORA_PATTERN_sub_lib get_package_groups_suffixed show ?thesis by blast
qed


section \<open>The order of iteration over a set has no effect\<close>

lemma set_fold_discard:
  "set (fold (\<lambda>x s'. if keep x then s' else removeAll x s') ys s) =
     {x \<in> set s. keep x \<or> x \<notin> set ys}"
  by (induction ys arbitrary: s) auto

lemma set_discard_loop:
  "set_order_ok ord \<Longrightarrow> set (discard_loop ord keep s) = {x \<in> set s. keep x}"
  by (auto simp: discard_loop_def set_fold_discard set_order_ok_def)

lemma set_fold_add:
  "set (fold (\<lambda>x s'. if want x then (if x \<in> set s' then s' else s' @ [x]) else s') ys s) =
     set s \<union> {x \<in> set ys. want x}"
  by (induction ys arbitrary: s) auto

lemma set_add_loop:
  "set_order_ok ord \<Longrightarrow> set (add_loop ord want xs s) = set s \<union> {x \<in> set xs. want x}"
  by (auto simp: add_loop_def set_fold_add set_order_ok_def)

text \<open>\<open>sorted\<close> of a set is the same list in every order of iteration.\<close>

lemma sort_set_order:
  assumes "set_order_ok ord" "set xs = set ys"
  shows "sort (ord xs) = sort (remdups ys)"
proof (rule sorted_distinct_set_unique)
  show "sorted (sort (ord xs))" "sorted (sort (remdups ys))" by simp_all
  show "distinct (sort (ord xs))" using assms(1) by (simp add: set_order_ok_def)
  show "distinct (sort (remdups ys))" by simp
  show "set (sort (ord xs)) = set (sort (remdups ys))" using assms by (simp add: set_order_ok_def)
qed

lemma set_remove_absent_ord:
  "set_order_ok ord \<Longrightarrow> set tags = set tags' \<Longrightarrow>
   set (remove_absent_ord ord ms tags) = set (remove_absent ms tags')"
proof (induction ms arbitrary: tags tags')
  case Nil
  then show ?case by simp
next
  case (Cons m ms)
  have "set (discard_loop ord (\<lambda>tag. tag \<in> set (RepoTags m)) tags) =
        set (filter (\<lambda>tag. tag \<in> set (RepoTags m)) tags')"
    using Cons.prems by (auto simp: set_discard_loop)
  from Cons.IH[OF Cons.prems(1) this] show ?case by simp
qed

lemma get_tags_ord_eq:
  "set_order_ok ord \<Longrightarrow> get_tags_ord ord re target ms = get_tags re target ms"
  unfolding get_tags_ord_def get_tags_def
  by (auto split: list.splits sum.splits
      simp: sort_set_order[OF _ set_remove_absent_ord[OF _ refl]] Let_def)

lemma pkg_dict_fold:
  "fold (\<lambda>k pkg. pkg(k \<mapsto> f k)) ks m = (\<lambda>k. if k \<in> set ks then Some (f k) else m k)"
  by (induction ks arbitrary: m) (auto simp: fun_eq_iff)

lemma pkg_dict_eq: "set_order_ok ord \<Longrightarrow> pkg_dict ord npkg ppkg = pkg_universe npkg ppkg"
  by (auto simp: pkg_dict_def pkg_dict_fold pkg_universe_def set_order_ok_def fun_eq_iff)

lemma set_common_loop_ord:
  "set_order_ok ord \<Longrightarrow> set common = set common' \<Longrightarrow>
   set (common_loop_ord ord pkg images first common) = set (common_loop pkg images first common')"
proof (induction images arbitrary: first common common')
  case Nil
  then show ?case by simp
next
  case (Cons a images)
  obtain img base de where a: "a = (img, base, de)" by (cases a)
  show ?case
  proof (cases "pkg img")
    case None
    with Cons a show ?thesis by simp
  next
    case (Some ps)
    have 1: "set (add_loop ord (\<lambda>p. True) ps common) = set (common' @ ps)"
      using Cons.prems by (auto simp: set_add_loop)
    have 2: "set (discard_loop ord (\<lambda>c. c \<in> set ps) common) =
             set (filter (\<lambda>c. c \<in> set ps) common')"
      using Cons.prems by (auto simp: set_discard_loop)
    show ?thesis
      using Cons.IH[OF Cons.prems(1) 1] Cons.IH[OF Cons.prems(1) 2] by (simp add: a Some)
  qed
qed

lemma set_other_loop_ord:
  "set_order_ok ord \<Longrightarrow> set common = set common' \<Longrightarrow> set other = set other' \<Longrightarrow>
   set (other_loop_ord ord pkg common t images first other) =
   set (other_loop pkg common' t images first other')"
proof (induction images arbitrary: first other other')
  case Nil
  then show ?case by simp
next
  case (Cons a images)
  obtain img base de where a: "a = (img, base, de)" by (cases a)
  show ?case
  proof (cases "pkg img")
    case None
    with Cons a show ?thesis by simp
  next
    case (Some ps)
    have 1: "set (add_loop ord (\<lambda>p. p \<notin> set common) ps other) =
             set (other' @ filter (\<lambda>p. p \<notin> set common') ps)"
      using Cons.prems by (auto simp: set_add_loop)
    have 2: "set (discard_loop ord (\<lambda>c. c \<in> set ps) other) =
             set (filter (\<lambda>c. c \<in> set ps) other')"
      using Cons.prems by (auto simp: set_discard_loop)
    show ?thesis
      using Cons.IH[OF Cons.prems(1,2) 1] Cons.IH[OF Cons.prems(1,2) 2]
        Cons.IH[OF Cons.prems(1,2,3)]
      by (simp add: a Some)
  qed
qed

lemma get_package_groups_ord_eq:
  assumes "set_order_ok ord"
  shows "get_package_groups_ord ord prev ms = get_package_groups prev ms"
proof -
  let ?pkg = "pkg_universe (get_packages ms) (get_packages prev)"
  have c: "sort (ord (common_loop_ord ord ?pkg get_images True [])) =
           sort (remdups (common_loop ?pkg get_images True []))"
    by (rule sort_set_order[OF assms set_common_loop_ord[OF assms refl]])
  have o: "sort (ord (other_loop_ord ord ?pkg (common_loop_ord ord ?pkg get_images True []) t
             get_images True [])) =
           sort (remdups (other_loop ?pkg (common_loop ?pkg get_images True []) t
             get_images True []))" for t
    by (rule sort_set_order[OF assms
          set_other_loop_ord[OF assms set_common_loop_ord[OF assms refl] refl]])
  show ?thesis
    unfolding get_package_groups_ord_def get_package_groups_def package_groups_def
    by (simp add: Let_def pkg_dict_eq[OF assms] c o)
qed

text \<open>The renderer reads its sets through \<open>sorted\<close> or through membership only.\<close>

lemma get_upstream_section_ord:
  assumes "set_order_ok ord1" "set_order_ok ord2"
  shows "get_upstream_section ord1 env target uc up = get_upstream_section ord2 env target uc up"
  unfolding get_upstream_section_def get_tags_ord_eq[OF assms(1)] get_tags_ord_eq[OF assms(2)]
    sort_set_order[OF assms(1) refl] sort_set_order[OF assms(2) refl] ..

text \<open>
  C10. Two runs of \<open>generate_changelog\<close> on the same arguments and in the same environment (the
  same manifests from \<open>inspect_image\<close>, the same output of \<open>git log\<close>, the same library) give the
  same result: the same title and the same document, byte for byte, or the same exception,
  whatever the orders in which the two runs walk their sets.
\<close>

theorem generate_changelog_deterministic:
  assumes "set_order_ok ord1" "set_order_ok ord2"
  shows "generate_changelog ord1 env handwritten target pretty workdir prev_manifests ms uc up =
         generate_changelog ord2 env handwritten target pretty workdir prev_manifests ms uc up"
  unfolding generate_changelog_def get_tags_ord_eq[OF assms(1)] get_tags_ord_eq[OF assms(2)]
    get_package_groups_ord_eq[OF assms(1)] get_package_groups_ord_eq[OF assms(2)]
    get_upstream_section_ord[OF assms] ..

lemma insertion_order_ok: "set_order_ok insertion_order"
  by (simp add: set_order_ok_def insertion_order_def)

lemma reverse_order_ok: "set_order_ok reverse_order"
  by (simp add: set_order_ok_def reverse_order_def)


lemma get_tags_release: "get_tags no_re ''stable'' release_curr = Inr (''43.1'', ''43.2'')"
  by (simp add: get_tags_def release_curr_def endswith_def is_digit_def)

lemma get_package_groups_release: "get_package_groups release_prev release_curr =
   ([''bar'', ''foo'', ''kernel''], [(''desktop'', []), (''deck'', []), (''kde'', []), (''nvidia'', [])])"
  by (simp add: groups_eval release_prev_def release_curr_def)

lemma make_pretty_release: "make_pretty ''stable'' ''43.2'' release_curr = ''Stable (F43)''"
  by (simp add: make_pretty_def strip_patch_def strip_channel_def capitalize_def first_revision_def
      release_curr_def is_digit_def is_lower_def NL_def ascii_upper_def ascii_lower_def Let_def)

lemma get_versions_release:
  "get_versions release_prev = [(''kernel'', ''6.1-1''), (''foo'', ''1.0-1'')]"
  "get_versions release_curr = [(''kernel'', ''6.2-1''), (''foo'', ''1.1-1''), (''bar'', ''2.0-1'')]"
  by (simp_all add: get_versions_def get_packages_def release_prev_def release_curr_def is_digit_def)

lemma calculate_changes_release:
  "calculate_changes [''bar'', ''foo'', ''kernel''] (map_of (get_versions release_prev))
     (map_of (get_versions release_curr)) =
   Inr (PATTERN_ADD ''bar'' ''2.0-1'' @ PATTERN_CHANGE ''foo'' ''1.0-1'' ''1.1-1'')"
  by (simp add: get_versions_release calculate_changes_def diff_eval)

lemma get_commits_release: "get_commits offline release_prev release_curr None = []"
  by (simp add: get_commits_def)

lemma get_upstream_section_offline: "get_upstream_section ord offline ''stable'' [] [] = []"
  by (simp add: get_upstream_section_def get_upstream_manifests_def offline_def)

lemma others_sections_empty:
  "others_sections [(''desktop'', []), (''deck'', []), (''kde'', []), (''nvidia'', [])] pv cv changes =
     Inr changes"
  by (simp add: calculate_changes_def diff_loop_def diff_init_def)

theorem generate_changelog_deterministic_witness:
  "generate_changelog insertion_order offline None ''stable'' None None release_prev release_curr [] [] =
   generate_changelog reverse_order offline None ''stable'' None None release_prev release_curr [] [] \<and>
   (\<exists>text. generate_changelog reverse_order offline None ''stable'' None None release_prev
      release_curr [] [] = Inr (''43.2: Stable (F43)'', text))"
proof -
  have "\<exists>text. generate_changelog reverse_order offline None ''stable'' None None release_prev
      release_curr [] [] = Inr (''43.2: Stable (F43)'', text)"
    unfolding generate_changelog_def get_tags_ord_eq[OF reverse_order_ok]
      get_package_groups_ord_eq[OF reverse_order_ok] get_package_groups_release get_upstream_section_offline get_commits_release
    by (simp add: offline_def get_tags_release calculate_changes_release others_sections_empty make_pretty_release CHANGELOG_TITLE_def PATTERN_ADD_def
        Let_def del: replace.simps others_sections.simps)
  with generate_changelog_deterministic[OF insertion_order_ok reverse_order_ok]
  show ?thesis by simp
qed


section \<open>Failure of the tag selection\<close>

lemma generate_changelog_get_tags_error:
  assumes "set_order_ok ord" "get_tags (re_lib env) target ms = Inl e"
  shows "generate_changelog ord env handwritten target pretty workdir prev_manifests ms uc up = Inl e"
  unfolding generate_changelog_def get_tags_ord_eq[OF assms(1)] assms(2)
  by (simp add: Let_def split: prod.splits)

text \<open>
  C7. When fewer than two tags qualify \<open>get_tags\<close> raises (an empty manifest collection, a
  channel pattern that does not compile, or the failed assertion) and returns no pair, and
  \<open>generate_changelog\<close> on these manifests ends in an exception and returns no title and no
  document; when two or more tags qualify \<open>get_tags\<close> returns a pair.
\<close>

theorem get_tags_fails_iff_fewer_than_two:
  "(card (qualifying_tags re target ms) < 2 \<longrightarrow> (\<exists>e. get_tags re target ms = Inl e)) \<and>
   (2 \<le> card (qualifying_tags re target ms) \<longrightarrow> (\<exists>p c. get_tags re target ms = Inr (p, c))) \<and>
   (card (qualifying_tags (re_lib env) target ms) < 2 \<and> set_order_ok ord \<longrightarrow>
      (\<exists>e. generate_changelog ord env handwritten target pretty workdir prev_manifests ms uc up =
         Inl e))"
proof -
  have 1: "card (qualifying_tags re target ms) < 2 \<longrightarrow> (\<exists>e. get_tags re target ms = Inl e)"
    and 2: "2 \<le> card (qualifying_tags re target ms) \<longrightarrow> (\<exists>p c. get_tags re target ms = Inr (p, c))"
    using get_tags_returns[of re target ms] by simp_all
  have 3: "card (qualifying_tags (re_lib env) target ms) < 2 \<and> set_order_ok ord \<longrightarrow>
      (\<exists>e. generate_changelog ord env handwritten target pretty workdir prev_manifests ms uc up =
         Inl e)"
  proof
    assume h: "card (qualifying_tags (re_lib env) target ms) < 2 \<and> set_order_ok ord"
    with get_tags_returns[of "re_lib env" target ms] obtain e where
      "get_tags (re_lib env) target ms = Inl e" by blast
    from generate_changelog_get_tags_error[OF _ this] h
    show "\<exists>e. generate_changelog ord env handwritten target pretty workdir prev_manifests ms uc up =
         Inl e" by blast
  qed
  show ?thesis by (rule conjI[OF 1 conjI[OF 2 3]])
qed

theorem get_tags_fails_iff_fewer_than_two_witness:
  "card (qualifying_tags no_re ''testing'' scenario_manifests) < 2 \<and>
   get_tags no_re ''testing'' scenario_manifests = Inl ReError \<and>
   2 \<le> card (qualifying_tags no_re ''stable'' scenario_manifests) \<and>
   get_tags no_re ''stable'' scenario_manifests = Inr (''23.10'', ''23.9'') \<and>
   2 \<le> card (qualifying_tags literal_re ''testing'' testing_manifests) \<and>
   get_tags literal_re ''testing'' testing_manifests = Inr (''testing-43.1'', ''testing-43.2'') \<and>
   card (qualifying_tags literal_re ''stable'' testing_manifests) < 2 \<and>
   get_tags literal_re ''stable'' testing_manifests = Inl AssertionError \<and>
   (\<exists>e. generate_changelog insertion_order offline None ''testing'' None None [] scenario_manifests
      [] [] = Inl e)"
proof -
  have q: "card (qualifying_tags no_re ''testing'' scenario_manifests) < 2"
    "2 \<le> card (qualifying_tags no_re ''stable'' scenario_manifests)"
    "2 \<le> card (qualifying_tags literal_re ''testing'' testing_manifests)"
    "card (qualifying_tags literal_re ''stable'' testing_manifests) < 2"
    by (simp_all add: qualifying_tags_list scenario_manifests_def scenario_manifest_def
        testing_manifests_def literal_re_def matches_channel_def endswith_def is_digit_def no_re_def
        OTHER_START_PATTERN_def card_insert_if)
  have g: "get_tags no_re ''testing'' scenario_manifests = Inl ReError"
    "get_tags no_re ''stable'' scenario_manifests = Inr (''23.10'', ''23.9'')"
    "get_tags literal_re ''testing'' testing_manifests = Inr (''testing-43.1'', ''testing-43.2'')"
    "get_tags literal_re ''stable'' testing_manifests = Inl AssertionError"
    by (simp_all add: get_tags_def scenario_manifests_def scenario_manifest_def
        testing_manifests_def literal_re_def endswith_def is_digit_def no_re_def
        OTHER_START_PATTERN_def)
  have r: "re_lib offline = no_re" by (simp add: offline_def)
  from get_tags_fails_iff_fewer_than_two[of "re_lib offline" "''testing''" scenario_manifests
      offline insertion_order None None None "[]" "[]" "[]", THEN conjunct2, THEN conjunct2]
    q(1) insertion_order_ok
  have "\<exists>e. generate_changelog insertion_order offline None ''testing'' None None [] scenario_manifests
      [] [] = Inl e"
    by (simp add: r)
  with q g show ?thesis by simp
qed

end
